theory Spec2Isabelle
  imports Main "HOL-Library.Word"
begin

section \<open>The RFC 2217 serial server: a shallow embedding of serial-server.py\<close>

text \<open>
  The program bridges one serial device and one TCP client. Its I/O primitives (the
  server socket, the client socket, the serial port, the RFC 2217 port manager and the
  thread scheduler) are outside the source file; they are modelled as records that carry
  a script: the list of outcomes that the successive calls of a primitive will have.
  Every function of the source becomes a function that takes the state and returns the
  updated state, every exception is a value, and every loop is a recursive function
  that consumes a script.
\<close>

subsection \<open>Exceptions\<close>

text \<open>
  The exception classes that the handlers of the source tell apart. In Python 3
  \<^verbatim>\<open>socket.error\<close> is an alias of \<^verbatim>\<open>OSError\<close>; \<^verbatim>\<open>BlockingIOError\<close> and
  \<^verbatim>\<open>socket.timeout\<close> are subclasses of it, and pyserial declares
  \<^verbatim>\<open>class SerialException(IOError)\<close>, where \<^verbatim>\<open>IOError\<close> is \<^verbatim>\<open>OSError\<close> again. So a
  handler \<^verbatim>\<open>except socket.error\<close> catches all four; \<^verbatim>\<open>KeyboardInterrupt\<close>,
  \<^verbatim>\<open>AttributeError\<close> and the other exceptions are outside that class.
\<close>

datatype exn =
    BlockingIOError
  | SocketTimeout
  | OSError string
  | SerialException string
  | KeyboardInterrupt
  | AttributeError string
  | OtherException string

fun is_socket_error :: "exn \<Rightarrow> bool" where
  "is_socket_error BlockingIOError = True"
| "is_socket_error SocketTimeout = True"
| "is_socket_error (OSError m) = True"
| "is_socket_error (SerialException m) = True"
| "is_socket_error KeyboardInterrupt = False"
| "is_socket_error (AttributeError m) = False"
| "is_socket_error (OtherException m) = False"

fun is_serial_exception :: "exn \<Rightarrow> bool" where
  "is_serial_exception (SerialException m) = True"
| "is_serial_exception e = False"

text \<open>\<^verbatim>\<open>str(e)\<close>, as the f-strings of the log calls print an exception.\<close>

fun str_exn :: "exn \<Rightarrow> string" where
  "str_exn BlockingIOError = ''Resource temporarily unavailable''"
| "str_exn SocketTimeout = ''timed out''"
| "str_exn (OSError m) = m"
| "str_exn (SerialException m) = m"
| "str_exn KeyboardInterrupt = ''''"
| "str_exn (AttributeError m) = m"
| "str_exn (OtherException m) = m"

subsection \<open>Logging levels and the verbosity flag\<close>

text \<open>
  The four constants of the \<^verbatim>\<open>logging\<close> module that the source uses, and the tuple
  \<^verbatim>\<open>levels\<close> of the main program, in its order.
\<close>

datatype log_level = NOTSET | DEBUG | INFO | WARNING | ERROR

definition levels :: "log_level list" where
  "levels = [NOTSET, WARNING, INFO, DEBUG]"

record logging_config =
  root_level :: log_level
  rfc2217_level :: log_level
  redirector_level :: log_level

text \<open>
  Lines 198 to 209: the count of \<^verbatim>\<open>-v\<close> flags is clamped to 3 and indexes
  \<^verbatim>\<open>levels\<close>; the root logger gets \<^verbatim>\<open>INFO\<close>, the loggers \<^verbatim>\<open>rfc2217\<close> and
  \<^verbatim>\<open>redirector\<close> get the indexed level. The count is never negative
  (\<^verbatim>\<open>action="count"\<close>, default 0), so it is a natural number and the index is in range.
\<close>

definition clamp_verbosity :: "nat \<Rightarrow> nat" where
  "clamp_verbosity verbosity = (if verbosity > 3 then 3 else verbosity)"

definition configure_logging :: "nat \<Rightarrow> logging_config" where
  "configure_logging verbosity =
     (let v = clamp_verbosity verbosity in
      \<lparr> root_level = INFO,
        rfc2217_level = levels ! v,
        redirector_level = levels ! v \<rparr>)"

text \<open>
  What a logger configured with a level lets through: \<^verbatim>\<open>NOTSET\<close> defers to the parent,
  here the root logger.
\<close>

definition effective_level :: "logging_config \<Rightarrow> log_level \<Rightarrow> log_level" where
  "effective_level cfg l = (if l = NOTSET then root_level cfg else l)"

text \<open>The \<^verbatim>\<open>debug\<close> argument of the Redirector: \<^verbatim>\<open>args.verbosity > 0\<close>.\<close>

definition redirector_debug :: "nat \<Rightarrow> bool" where
  "redirector_debug verbosity = (clamp_verbosity verbosity > 0)"

subsection \<open>Bytes, events and results\<close>

type_synonym byte = "8 word"
type_synonym bytes = "byte list"

datatype thread_id = Thread_read | Thread_poll

text \<open>
  The trace records, in program order, the log calls, the assignments to the liveness
  flag, the thread and timing calls, and the calls that the main loop makes on the
  sockets and on the serial port. The data path itself is recorded in the devices
  (what was sent to the socket, what was written to the port).
\<close>

type_synonym serial_settings = "(string \<times> int) list"

datatype event =
    Log log_level string
  | Set_alive bool
  | Thread_start thread_id
  | Thread_join thread_id
  | Sleep
  | Accept_timeout
  | Accepted string nat
  | Probe
  | Client_close
  | Client_nodelay
  | Client_nonblocking
  | Serial_open bool
  | Serial_close
  | Serial_get_settings
  | Serial_dtr bool
  | Serial_rts bool
  | Serial_apply_settings serial_settings
  | New_redirector

text \<open>
  A call returns a value, raises, or does not return: the loop it runs is still going
  when the script of its environment is used up.
\<close>

datatype 'a result = Return 'a | Raised exn | Hangs

subsection \<open>The client socket\<close>

text \<open>
  \<open>rx\<close> is what the successive \<^verbatim>\<open>recv\<close> calls find: data that has arrived, or an
  exception (\<^verbatim>\<open>BlockingIOError\<close> when a non-blocking socket has nothing, a connection
  error, an interrupt); when it is empty the peer has closed and \<^verbatim>\<open>recv\<close> returns
  \<^verbatim>\<open>b""\<close>. \<open>tx_outcomes\<close> is how the successive \<^verbatim>\<open>sendall\<close> calls end (success when
  the list is used up).
\<close>

datatype rx_event = Data bytes | Rx_raise exn

record client_socket =
  rx :: "rx_event list"
  tx_outcomes :: "exn option list"
  sent :: bytes
  sock_closed :: bool
  nodelay :: bool
  blocking :: bool

definition recv :: "nat \<Rightarrow> client_socket \<Rightarrow> (exn + bytes) \<times> client_socket" where
  "recv bufsize s =
     (case rx s of
        [] \<Rightarrow> (Inr [], s)
      | Rx_raise e # rest \<Rightarrow> (Inl e, s\<lparr>rx := rest\<rparr>)
      | Data d # rest \<Rightarrow>
          (Inr (take bufsize d),
           s\<lparr>rx := (if drop bufsize d = [] then rest else Data (drop bufsize d) # rest)\<rparr>))"

definition sendall :: "bytes \<Rightarrow> client_socket \<Rightarrow> (exn + unit) \<times> client_socket" where
  "sendall data s =
     (case tx_outcomes s of
        [] \<Rightarrow> (Inr (), s\<lparr>sent := sent s @ data\<rparr>)
      | None # rest \<Rightarrow> (Inr (), s\<lparr>tx_outcomes := rest, sent := sent s @ data\<rparr>)
      | Some e # rest \<Rightarrow> (Inl e, s\<lparr>tx_outcomes := rest\<rparr>))"

subsection \<open>The serial port\<close>

text \<open>
  The attributes of the port that the program touches, the outcomes of the successive
  \<^verbatim>\<open>open\<close>, \<^verbatim>\<open>read\<close> and \<^verbatim>\<open>write\<close> calls, and the bytes written so far. A
  \<^verbatim>\<open>read\<close> past the end of its script times out and returns \<^verbatim>\<open>b""\<close>; a \<^verbatim>\<open>write\<close> past
  the end of its script succeeds. The attribute setters, \<^verbatim>\<open>get_settings\<close>,
  \<^verbatim>\<open>apply_settings\<close> and \<^verbatim>\<open>close\<close> are modelled as calls that do not raise: no
  handler of the source expects them to.
\<close>

record serial_port =
  port_name :: string
  is_open :: bool
  dtr :: bool
  rts :: bool
  settings :: serial_settings
  open_outcomes :: "exn option list"
  read_outcomes :: "(exn + bytes) list"
  write_outcomes :: "exn option list"
  written :: bytes

definition serial_read :: "serial_port \<Rightarrow> (exn + bytes) \<times> serial_port" where
  "serial_read p =
     (case read_outcomes p of
        [] \<Rightarrow> (Inr [], p)
      | x # rest \<Rightarrow> (x, p\<lparr>read_outcomes := rest\<rparr>))"

definition serial_write :: "bytes \<Rightarrow> serial_port \<Rightarrow> (exn + unit) \<times> serial_port" where
  "serial_write data p =
     (case write_outcomes p of
        [] \<Rightarrow> (Inr (), p\<lparr>written := written p @ data\<rparr>)
      | None # rest \<Rightarrow> (Inr (), p\<lparr>write_outcomes := rest, written := written p @ data\<rparr>)
      | Some e # rest \<Rightarrow> (Inl e, p\<lparr>write_outcomes := rest\<rparr>))"

subsection \<open>The RFC 2217 port manager (external collaborator)\<close>

text \<open>
  \<^verbatim>\<open>serial.rfc2217.PortManager\<close> is not part of the source. The Redirector uses three
  of its operations, which are parameters of the model: \<^verbatim>\<open>escape\<close>, a transform of
  the bytes going to the socket; \<^verbatim>\<open>filter\<close>, which takes the received bytes, may
  change the settings of the port (the control channel negotiates them), and yields
  the payload for the port or raises; and \<^verbatim>\<open>check_modem_lines\<close>, scripted by its
  successive outcomes.
\<close>

record port_manager =
  pm_escape :: "bytes \<Rightarrow> bytes"
  pm_filter :: "bytes \<Rightarrow> serial_settings \<Rightarrow> (exn + bytes) \<times> serial_settings"
  modem_outcomes :: "exn option list"

definition check_modem_lines :: "port_manager \<Rightarrow> exn option \<times> port_manager" where
  "check_modem_lines pm =
     (case modem_outcomes pm of
        [] \<Rightarrow> (None, pm)
      | x # rest \<Rightarrow> (x, pm\<lparr>modem_outcomes := rest\<rparr>))"

subsection \<open>class Redirector\<close>

text \<open>
  The attributes of a Redirector. \<open>alive\<close> is \<open>None\<close> until \<^verbatim>\<open>shortcircuit\<close> assigns it
  (the constructor does not create the attribute); a thread is \<open>Unstarted\<close> until
  \<^verbatim>\<open>shortcircuit\<close> creates and starts it, and \<open>Crashed\<close> when an exception left its
  target function. The three activities run concurrently; the model interleaves them at
  the granularity of one loop iteration (a turn), in the order that a schedule gives.
\<close>

datatype thread_state = Unstarted | Running | Finished | Crashed exn

datatype turn = T_reader | T_poller | T_writer

record redirector =
  serial :: serial_port
  socket :: client_socket
  rfc2217 :: port_manager
  alive :: "bool option"
  thread_read :: thread_state
  thread_poll :: thread_state
  trace :: "event list"

definition emit :: "event \<Rightarrow> redirector \<Rightarrow> redirector" where
  "emit e r = r\<lparr>trace := trace r @ [e]\<rparr>"

text \<open>\<^verbatim>\<open>Redirector.__init__\<close>: the object holds the port and the socket it is given.\<close>

definition new_redirector ::
  "serial_port \<Rightarrow> client_socket \<Rightarrow> port_manager \<Rightarrow> event list \<Rightarrow> redirector" where
  "new_redirector ser client pm tr =
     \<lparr> serial = ser, socket = client, rfc2217 = pm, alive = None,
       thread_read = Unstarted, thread_poll = Unstarted, trace = tr \<rparr>"

text \<open>
  \<^verbatim>\<open>Redirector.write\<close>: \<^verbatim>\<open>sendall\<close> under the write lock. A turn is atomic here, so the
  lock is free when the call starts and free again when it ends, also when
  \<^verbatim>\<open>sendall\<close> raises.
\<close>

definition write_socket :: "bytes \<Rightarrow> redirector \<Rightarrow> (exn + unit) \<times> redirector" where
  "write_socket data r =
     (case sendall data (socket r) of (res, s) \<Rightarrow> (res, r\<lparr>socket := s\<rparr>))"

text \<open>
  \<^verbatim>\<open>Redirector.reader\<close>, one turn: the loop test, then the body. After the loop (the
  flag is false, or \<^verbatim>\<open>break\<close>) the flag is cleared and the thread ends. The handler
  is \<^verbatim>\<open>except socket.error\<close>; any other exception leaves the function.
\<close>

definition reader_exit :: "redirector \<Rightarrow> redirector" where
  "reader_exit r =
     (emit (Log DEBUG ''Reader thread terminated'')
        (emit (Set_alive False) (r\<lparr>alive := Some False\<rparr>)))\<lparr>thread_read := Finished\<rparr>"

definition reader_except :: "exn \<Rightarrow> redirector \<Rightarrow> redirector" where
  "reader_except e r =
     (if is_socket_error e then reader_exit (emit (Log ERROR (str_exn e)) r)
      else r\<lparr>thread_read := Crashed e\<rparr>)"

definition reader_turn :: "redirector \<Rightarrow> redirector" where
  "reader_turn r =
     (if thread_read r \<noteq> Running then r
      else case alive r of
        None \<Rightarrow> r\<lparr>thread_read := Crashed (AttributeError ''alive'')\<rparr>
      | Some False \<Rightarrow> reader_exit r
      | Some True \<Rightarrow>
          (case serial_read (serial r) of
             (Inl e, p) \<Rightarrow> reader_except e (r\<lparr>serial := p\<rparr>)
           | (Inr data, p) \<Rightarrow>
               if data = [] then r\<lparr>serial := p\<rparr>
               else (case write_socket (pm_escape (rfc2217 r) data) (r\<lparr>serial := p\<rparr>) of
                       (Inl e, r') \<Rightarrow> reader_except e r'
                     | (Inr u, r') \<Rightarrow> r')))"

text \<open>
  \<^verbatim>\<open>Redirector.statusline_poller\<close>, one turn. The handler is
  \<^verbatim>\<open>except serial.SerialException\<close>: it logs and the loop goes on.
\<close>

definition poller_turn :: "redirector \<Rightarrow> redirector" where
  "poller_turn r =
     (if thread_poll r \<noteq> Running then r
      else case alive r of
        None \<Rightarrow> r\<lparr>thread_poll := Crashed (AttributeError ''alive'')\<rparr>
      | Some False \<Rightarrow>
          (emit (Log DEBUG ''Status line poll thread terminated'') r)\<lparr>thread_poll := Finished\<rparr>
      | Some True \<Rightarrow>
          (case check_modem_lines (rfc2217 r) of
             (None, pm) \<Rightarrow> (emit Sleep r)\<lparr>rfc2217 := pm\<rparr>
           | (Some e, pm) \<Rightarrow>
               if is_serial_exception e
               then emit (Log ERROR (''Error polling modem lines: '' @ str_exn e))
                      ((emit Sleep r)\<lparr>rfc2217 := pm\<rparr>)
               else (emit Sleep r)\<lparr>rfc2217 := pm, thread_poll := Crashed e\<rparr>))"

text \<open>
  \<^verbatim>\<open>Redirector.stop\<close>. \<^verbatim>\<open>join\<close> waits until the thread has ended: the joined thread
  takes its next turn, and the call returns when the thread is no longer running
  (it \<open>Hangs\<close> otherwise).
\<close>

definition join_read :: "redirector \<Rightarrow> unit result \<times> redirector" where
  "join_read r =
     (case thread_read r of
        Unstarted \<Rightarrow> (Raised (AttributeError ''thread_read''), r)
      | _ \<Rightarrow> (let r' = reader_turn r in
              if thread_read r' = Running then (Hangs, r')
              else (Return (), emit (Thread_join Thread_read) r')))"

definition join_poll :: "redirector \<Rightarrow> unit result \<times> redirector" where
  "join_poll r =
     (case thread_poll r of
        Unstarted \<Rightarrow> (Raised (AttributeError ''thread_poll''), r)
      | _ \<Rightarrow> (let r' = poller_turn r in
              if thread_poll r' = Running then (Hangs, r')
              else (Return (), emit (Thread_join Thread_poll) r')))"

definition stop :: "redirector \<Rightarrow> unit result \<times> redirector" where
  "stop r =
     (let r1 = emit (Log DEBUG ''Stopping'') r in
      case alive r1 of
        None \<Rightarrow> (Raised (AttributeError ''alive''), r1)
      | Some False \<Rightarrow> (Return (), r1)
      | Some True \<Rightarrow>
          (case join_read (emit (Set_alive False) (r1\<lparr>alive := Some False\<rparr>)) of
             (Return u, r2) \<Rightarrow> join_poll r2
           | (res, r2) \<Rightarrow> (res, r2)))"

text \<open>
  \<^verbatim>\<open>Redirector.writer\<close>. The body of the loop says how the iteration ends: the loop
  goes on, \<^verbatim>\<open>break\<close>, or an exception that no handler of the loop catches.
\<close>

datatype loop_exit = Continue | Break | Uncaught exn

definition writer_except :: "exn \<Rightarrow> redirector \<Rightarrow> loop_exit \<times> redirector" where
  "writer_except e r =
     (if e = BlockingIOError then (Continue, r)
      else if is_socket_error e then (Break, emit (Log ERROR (str_exn e)) r)
      else (Uncaught e, r))"

definition writer_body :: "redirector \<Rightarrow> loop_exit \<times> redirector" where
  "writer_body r =
     (case recv 1024 (socket r) of
        (Inl e, s) \<Rightarrow> writer_except e (r\<lparr>socket := s\<rparr>)
      | (Inr data, s) \<Rightarrow>
          if data = [] then (Break, r\<lparr>socket := s\<rparr>)
          else (case pm_filter (rfc2217 r) data (settings (serial r)) of
                  (Inl e, cfg) \<Rightarrow>
                    writer_except e (r\<lparr>socket := s, serial := (serial r)\<lparr>settings := cfg\<rparr>\<rparr>)
                | (Inr payload, cfg) \<Rightarrow>
                    (case serial_write payload ((serial r)\<lparr>settings := cfg\<rparr>) of
                       (Inl e, p) \<Rightarrow> writer_except e (r\<lparr>socket := s, serial := p\<rparr>)
                     | (Inr u, p) \<Rightarrow> (Continue, r\<lparr>socket := s, serial := p\<rparr>))))"

definition writer_exit :: "redirector \<Rightarrow> unit result \<times> redirector" where
  "writer_exit r = stop (emit (Log DEBUG ''Writer thread terminated'') r)"

fun writer :: "turn list \<Rightarrow> redirector \<Rightarrow> unit result \<times> redirector" where
  "writer [] r =
     (case alive r of
        None \<Rightarrow> (Raised (AttributeError ''alive''), r)
      | Some False \<Rightarrow> writer_exit r
      | Some True \<Rightarrow> (Hangs, r))"
| "writer (t # ts) r =
     (case alive r of
        None \<Rightarrow> (Raised (AttributeError ''alive''), r)
      | Some False \<Rightarrow> writer_exit r
      | Some True \<Rightarrow>
          (case t of
             T_reader \<Rightarrow> writer ts (reader_turn r)
           | T_poller \<Rightarrow> writer ts (poller_turn r)
           | T_writer \<Rightarrow>
               (case writer_body r of
                  (Continue, r') \<Rightarrow> writer ts r'
                | (Break, r') \<Rightarrow> writer_exit r'
                | (Uncaught e, r') \<Rightarrow> (Raised e, r'))))"

text \<open>
  \<^verbatim>\<open>Redirector.shortcircuit\<close>: set the flag, start the two threads, run the writer on
  the caller's thread.
\<close>

definition start_threads :: "redirector \<Rightarrow> redirector" where
  "start_threads r =
     (let r1 = emit (Set_alive True) (r\<lparr>alive := Some True\<rparr>);
          r2 = emit (Log DEBUG ''Reader thread started'')
                 (emit (Thread_start Thread_read) (r1\<lparr>thread_read := Running\<rparr>));
          r3 = emit (Log DEBUG ''Status line poll thread started'')
                 (emit (Thread_start Thread_poll) (r2\<lparr>thread_poll := Running\<rparr>))
      in r3)"

definition shortcircuit :: "turn list \<Rightarrow> redirector \<Rightarrow> unit result \<times> redirector" where
  "shortcircuit sched r = writer sched (start_threads r)"

subsection \<open>The main program\<close>

text \<open>
  The variables of the main program: the serial port \<^verbatim>\<open>ser\<close>, the listening socket
  \<^verbatim>\<open>srv\<close> (the outcomes of its successive \<^verbatim>\<open>accept\<close> calls: a timeout or another
  exception, or a new client socket with the peer's address), the variables
  \<^verbatim>\<open>client\<close> and \<^verbatim>\<open>addr\<close>, and the trace. Each session constructs a new port
  manager and runs under its own schedule.
\<close>

type_synonym address = "string \<times> nat"

record supervisor =
  ser :: serial_port
  srv :: "(exn + (client_socket \<times> address)) list"
  client :: "client_socket option"
  addr :: "address option"
  new_port_manager :: port_manager
  scheds :: "turn list list"
  history :: "event list"

definition IP_WHITELIST :: "string list" where
  "IP_WHITELIST = [''localhost'', ''0.0.0.0'', ''127.0.0.1'']"

definition mark :: "event \<Rightarrow> supervisor \<Rightarrow> supervisor" where
  "mark e st = st\<lparr>history := history st @ [e]\<rparr>"

text \<open>Decimal digits of a port number, for the f-strings.\<close>

fun str_nat :: "nat \<Rightarrow> string" where
  "str_nat n =
     (if n < 10 then [char_of (48 + n)]
      else str_nat (n div 10) @ [char_of (48 + n mod 10)])"

text \<open>\<^verbatim>\<open>sub in s\<close> on strings: \<open>sub\<close> occurs in \<open>s\<close> as a contiguous substring.\<close>

fun starts_with :: "string \<Rightarrow> string \<Rightarrow> bool" where
  "starts_with [] s = True"
| "starts_with (c # cs) [] = False"
| "starts_with (c # cs) (d # ds) = (c = d \<and> starts_with cs ds)"

fun contains :: "string \<Rightarrow> string \<Rightarrow> bool" where
  "contains sub [] = (sub = [])"
| "contains sub (c # cs) = (starts_with sub (c # cs) \<or> contains sub cs)"

text \<open>\<^verbatim>\<open>is_socket_connected\<close>, lines 149 to 161.\<close>

definition is_socket_connected ::
  "client_socket option \<Rightarrow> (exn + bool) \<times> client_socket option" where
  "is_socket_connected sock =
     (case sock of
        None \<Rightarrow> (Inr False, None)
      | Some s \<Rightarrow>
          (case recv 1 s of
             (Inl e, s') \<Rightarrow> (if is_socket_error e then Inr True else Inl e, Some s')
           | (Inr data, s') \<Rightarrow> (if data = [] then Inr False else Inr True, Some s')))"

text \<open>
  Lines 234 to 244, the loop that waits for a client. It starts with
  \<^verbatim>\<open>client = None\<close>; every pass probes the current client and, when the probe says
  that it is not connected, calls \<^verbatim>\<open>accept\<close>. A timeout is logged and the loop goes
  on; any other exception of \<^verbatim>\<open>accept\<close> or of the probe leaves the loop.
\<close>

definition probe_event :: "supervisor \<Rightarrow> supervisor" where
  "probe_event st = (case client st of None \<Rightarrow> st | Some s \<Rightarrow> mark Probe st)"

function await_client :: "supervisor \<Rightarrow> unit result \<times> supervisor" where
  "await_client st =
     (case is_socket_connected (client st) of
        (Inl e, c) \<Rightarrow> (Raised e, (probe_event st)\<lparr>client := c\<rparr>)
      | (Inr True, c) \<Rightarrow> (Return (), (probe_event st)\<lparr>client := c\<rparr>)
      | (Inr False, c) \<Rightarrow>
          (case srv st of
             [] \<Rightarrow> (Hangs, (probe_event st)\<lparr>client := c\<rparr>)
           | Inl e # rest \<Rightarrow>
               if e = SocketTimeout
               then await_client
                      (mark Sleep
                        (mark (Log INFO ''Waiting for client connection...'')
                          (mark Accept_timeout ((probe_event st)\<lparr>client := c, srv := rest\<rparr>))))
               else (Raised e, (probe_event st)\<lparr>client := c, srv := rest\<rparr>)
           | Inr (s, a) # rest \<Rightarrow>
               await_client
                 (mark (Log INFO (''Connection request from '' @ fst a @ '':'' @ str_nat (snd a)))
                   (mark (Accepted (fst a) (snd a))
                     ((probe_event st)\<lparr>client := Some s, addr := Some a, srv := rest\<rparr>)))))"
  by pat_completeness auto
termination
  by (relation "measure (\<lambda>st. length (srv st))")
     (auto simp: mark_def probe_event_def split: option.splits)

text \<open>
  Lines 258 to 278, the loop that waits for the serial port. Only
  \<^verbatim>\<open>serial.SerialException\<close> is handled; the branch taken depends on the text of the
  exception.
\<close>

definition serial_close :: "supervisor \<Rightarrow> supervisor" where
  "serial_close st = mark Serial_close (st\<lparr>ser := (ser st)\<lparr>is_open := False\<rparr>\<rparr>)"

function await_serial :: "supervisor \<Rightarrow> unit result \<times> supervisor" where
  "await_serial st =
     (if is_open (ser st) then (Return (), st)
      else case open_outcomes (ser st) of
        [] \<Rightarrow> (Hangs, st)
      | None # rest \<Rightarrow>
          await_serial
            (mark (Serial_open True)
               (st\<lparr>ser := (ser st)\<lparr>is_open := True, open_outcomes := rest\<rparr>\<rparr>))
      | Some e # rest \<Rightarrow>
          (let st1 = mark (Serial_open False) (st\<lparr>ser := (ser st)\<lparr>open_outcomes := rest\<rparr>\<rparr>) in
           if is_serial_exception e then
             await_serial
               (mark Sleep
                 (if contains ''Port is already open'' (str_exn e) then serial_close st1
                  else if contains ''PermissionError'' (str_exn e)
                  then mark (Log ERROR (''Port '' @ port_name (ser st1) @ '' is already in use'')) st1
                  else mark (Log INFO (''Waiting for serial connection on ''
                               @ port_name (ser st1) @ ''...'')) st1))
           else (Raised e, st1)))"
  by pat_completeness auto
termination
  by (relation "measure (\<lambda>st. length (open_outcomes (ser st)))")
     (auto simp: mark_def serial_close_def)

text \<open>
  Lines 302 to 313, the \<^verbatim>\<open>finally\<close> block. It runs when \<^verbatim>\<open>shortcircuit\<close> has
  returned or raised; the exception of \<^verbatim>\<open>shortcircuit\<close>, if any, is raised again
  after the block.
\<close>

definition teardown ::
  "serial_settings \<Rightarrow> unit result \<Rightarrow> redirector \<Rightarrow> supervisor \<Rightarrow> unit result \<times> supervisor" where
  "teardown snapshot res r st =
     (case stop (emit (Log INFO ''Disconnected'') r) of
        (Return u, r') \<Rightarrow>
          (res,
           st\<lparr>client := Some ((socket r')\<lparr>sock_closed := True\<rparr>),
              ser := (serial r')\<lparr>dtr := False, rts := False, settings := snapshot,
                                is_open := False\<rparr>,
              history := trace r' @ [Client_close, Serial_dtr False, Serial_rts False,
                                     Serial_apply_settings snapshot, Serial_close]\<rparr>)
      | (res', r') \<Rightarrow>
          (res', st\<lparr>client := Some (socket r'), ser := serial r', history := trace r'\<rparr>))"

text \<open>
  Lines 280 to 313: the snapshot of the settings, DTR and RTS, the Redirector, and
  \<^verbatim>\<open>shortcircuit\<close> under \<^verbatim>\<open>try\<close>. The Redirector shares the port and the socket with
  the main program, which reads them back when the session is over.
\<close>

definition next_sched :: "supervisor \<Rightarrow> turn list" where
  "next_sched st = (case scheds st of [] \<Rightarrow> [] | sched # rest \<Rightarrow> sched)"

definition session :: "client_socket \<Rightarrow> supervisor \<Rightarrow> unit result \<times> supervisor" where
  "session c st =
     (let st1 = mark (Log INFO (''Connected to '' @ port_name (ser st))) st;
          snapshot = settings (ser st1);
          st2 = mark Serial_get_settings st1;
          st3 = mark (Serial_dtr True) (st2\<lparr>ser := (ser st2)\<lparr>dtr := True\<rparr>\<rparr>);
          st4 = mark (Serial_rts True) (st3\<lparr>ser := (ser st3)\<lparr>rts := True\<rparr>\<rparr>);
          st5 = mark New_redirector st4;
          r = new_redirector (ser st5) c (new_port_manager st5) (history st5);
          st6 = st5\<lparr>scheds := tl (scheds st5)\<rparr>
      in case shortcircuit (next_sched st5) r of
           (Hangs, r') \<Rightarrow>
             (Hangs, st6\<lparr>client := Some (socket r'), ser := serial r', history := trace r'\<rparr>)
         | (res, r') \<Rightarrow> teardown snapshot res r' st6)"

text \<open>
  Lines 246 to 313: the whitelist check on the accepted client, the socket options,
  the wait for the serial port and the session.
\<close>

definition serve :: "supervisor \<Rightarrow> unit result \<times> supervisor" where
  "serve st =
     (case (client st, addr st) of
        (Some c, Some a) \<Rightarrow>
          if fst a \<notin> set IP_WHITELIST
          then (Return (),
                mark Client_close
                  (mark (Log WARNING (''Connection request from '' @ fst a @ '' denied''))
                     st)\<lparr>client := Some (c\<lparr>sock_closed := True\<rparr>)\<rparr>)
          else
            (let c' = c\<lparr>nodelay := True, blocking := False\<rparr>;
                 st1 = mark Client_nonblocking (mark Client_nodelay (st\<lparr>client := Some c'\<rparr>))
             in case await_serial st1 of
                  (Return u, st2) \<Rightarrow> session c' st2
                | (res, st2) \<Rightarrow> (res, st2))
      | _ \<Rightarrow> (Raised (AttributeError ''client''), st))"

text \<open>
  One pass of \<^verbatim>\<open>while True\<close> (lines 230 to 322) with its two handlers:
  \<^verbatim>\<open>KeyboardInterrupt\<close> ends the loop, \<^verbatim>\<open>socket.error\<close> is logged and the loop goes
  on; any other exception ends the program.
\<close>

datatype loop_status = Next_pass | Exited | Died exn | Stuck | Out_of_fuel

definition pass_body :: "supervisor \<Rightarrow> unit result \<times> supervisor" where
  "pass_body st =
     (case await_client (st\<lparr>client := None\<rparr>) of
        (Return u, st1) \<Rightarrow> serve st1
      | (res, st1) \<Rightarrow> (res, st1))"

definition main_pass :: "supervisor \<Rightarrow> loop_status \<times> supervisor" where
  "main_pass st =
     (case pass_body st of
        (Return u, st') \<Rightarrow> (Next_pass, st')
      | (Hangs, st') \<Rightarrow> (Stuck, st')
      | (Raised e, st') \<Rightarrow>
          if e = KeyboardInterrupt then (Exited, mark (Log INFO ''Exiting...'') st')
          else if is_socket_error e
          then (Next_pass, mark (Log ERROR (''Socket error: '' @ str_exn e)) st')
          else (Died e, st'))"

fun main_loop :: "nat \<Rightarrow> supervisor \<Rightarrow> loop_status \<times> supervisor" where
  "main_loop 0 st = (Out_of_fuel, st)"
| "main_loop (Suc n) st =
     (case main_pass st of
        (Next_pass, st') \<Rightarrow> main_loop n st'
      | (status, st') \<Rightarrow> (status, st'))"

subsection \<open>Properties of traces\<close>

text \<open>
  The events that the methods of a Redirector can add to the trace once
  \<^verbatim>\<open>shortcircuit\<close> has started the threads: log calls, assignments of \<open>False\<close> to the
  flag, joins and sleeps. \<open>session_steps r r'\<close> says that the trace of \<open>r'\<close> is the
  trace of \<open>r\<close> followed by such events only.
\<close>

fun session_event :: "event \<Rightarrow> bool" where
  "session_event (Log l m) = True"
| "session_event (Set_alive b) = (\<not> b)"
| "session_event (Thread_join t) = True"
| "session_event Sleep = True"
| "session_event e = False"

definition session_steps :: "redirector \<Rightarrow> redirector \<Rightarrow> bool" where
  "session_steps r r' = (\<exists>evs. trace r' = trace r @ evs \<and> list_all session_event evs)"

text \<open>The Redirector right after \<^verbatim>\<open>stop\<close> has cleared the flag, before the joins.\<close>

definition stopping :: "redirector \<Rightarrow> redirector" where
  "stopping r = emit (Set_alive False) ((emit (Log DEBUG ''Stopping'') r)\<lparr>alive := Some False\<rparr>)"

subsection \<open>Example inputs\<close>

text \<open>
  Concrete devices for the witnesses and counterexamples: a port manager whose
  transforms are the identity, a closed serial port, a client socket with a given
  receive script, and a Redirector on them.
\<close>

definition identity_manager :: port_manager where
  "identity_manager =
     \<lparr> pm_escape = (\<lambda>d. d), pm_filter = (\<lambda>d cfg. (Inr d, cfg)), modem_outcomes = [] \<rparr>"

definition demo_serial :: serial_port where
  "demo_serial =
     \<lparr> port_name = ''/dev/ttyUSB0'', is_open = False, dtr = False, rts = False,
       settings = [(''baudrate'', 9600)], open_outcomes = [], read_outcomes = [],
       write_outcomes = [], written = [] \<rparr>"

definition demo_socket :: "rx_event list \<Rightarrow> client_socket" where
  "demo_socket xs =
     \<lparr> rx = xs, tx_outcomes = [], sent = [], sock_closed = False, nodelay = False,
       blocking = True \<rparr>"

definition demo_redirector :: "rx_event list \<Rightarrow> redirector" where
  "demo_redirector xs =
     new_redirector (demo_serial\<lparr>is_open := True\<rparr>) (demo_socket xs) identity_manager []"

subsection \<open>Operations on a running Redirector and the writes to the flag\<close>

text \<open>
  The methods that can run on a Redirector after \<^verbatim>\<open>shortcircuit\<close> has started it (a
  turn of the reader or of the poller, \<^verbatim>\<open>write\<close>, the writer loop, \<^verbatim>\<open>stop\<close>), and
  the values that a trace assigns to the flag, in order.
\<close>

datatype operation = Op_reader | Op_poller | Op_write bytes | Op_writer "turn list" | Op_stop

fun perform :: "operation \<Rightarrow> redirector \<Rightarrow> redirector" where
  "perform Op_reader r = reader_turn r"
| "perform Op_poller r = poller_turn r"
| "perform (Op_write d) r = snd (write_socket d r)"
| "perform (Op_writer sched) r = snd (writer sched r)"
| "perform Op_stop r = snd (stop r)"

fun alive_writes :: "event list \<Rightarrow> bool list" where
  "alive_writes [] = []"
| "alive_writes (Set_alive b # es) = b # alive_writes es"
| "alive_writes (e # es) = alive_writes es"

subsection \<open>Inputs that raise\<close>

text \<open>
  A port manager whose filter raises an exception that is not an \<^verbatim>\<open>OSError\<close>, and a
  running Redirector over a serial port with given outcomes of its reads.
\<close>

definition failing_manager :: port_manager where
  "failing_manager =
     identity_manager\<lparr>pm_filter := (\<lambda>d cfg. (Inl (OtherException ''struct.error''), cfg))\<rparr>"

definition reading_redirector :: "(exn + bytes) list \<Rightarrow> redirector" where
  "reading_redirector xs =
     start_threads
       (new_redirector (demo_serial\<lparr>is_open := True, read_outcomes := xs\<rparr>)
          (demo_socket []) identity_manager [])"

subsection \<open>The events of the wait for a client, and an example of a main program\<close>

text \<open>
  The recursive equations of the two waiting loops and of \<open>str_nat\<close> are unfolded
  by hand in the proofs.
\<close>

declare await_client.simps [simp del]

declare await_serial.simps [simp del]

declare str_nat.simps [simp del]

text \<open>
  The events that the loop of lines 234 to 244 can add to the history, and a main
  program on the example port, whose first three \<^verbatim>\<open>open\<close> calls succeed, with given
  outcomes of \<^verbatim>\<open>accept\<close> and given schedules for its sessions.
\<close>

fun client_wait_event :: "event \<Rightarrow> bool" where
  "client_wait_event Probe = True"
| "client_wait_event Accept_timeout = True"
| "client_wait_event (Accepted h p) = True"
| "client_wait_event (Log l m) = True"
| "client_wait_event Sleep = True"
| "client_wait_event e = False"

definition demo_supervisor ::
  "(exn + (client_socket \<times> address)) list \<Rightarrow> turn list list \<Rightarrow> supervisor" where
  "demo_supervisor accepts ss =
     \<lparr> ser = demo_serial\<lparr>open_outcomes := [None, None, None]\<rparr>, srv = accepts,
       client = None, addr = None,
       new_port_manager = identity_manager, scheds = ss, history = [] \<rparr>"

subsection \<open>Events of the phases of a pass\<close>

text \<open>
  The events that the loop of lines 258 to 278 can add to the history, and those
  that a Redirector can add.
\<close>

fun serial_wait_event :: "event \<Rightarrow> bool" where
  "serial_wait_event (Serial_open b) = True"
| "serial_wait_event Serial_close = True"
| "serial_wait_event Sleep = True"
| "serial_wait_event (Log l m) = True"
| "serial_wait_event e = False"

fun redirector_event :: "event \<Rightarrow> bool" where
  "redirector_event (Log l m) = True"
| "redirector_event (Set_alive b) = True"
| "redirector_event (Thread_start t) = True"
| "redirector_event (Thread_join t) = True"
| "redirector_event Sleep = True"
| "redirector_event e = False"

text \<open>The number of Redirectors that a history has seen constructed.\<close>

definition sessions :: "event list \<Rightarrow> nat" where
  "sessions h = length (filter (\<lambda>e. e = New_redirector) h)"

text \<open>
  The handler of \<^verbatim>\<open>SerialException\<close> in the loop that waits for the port, applied
  to the state after the failed \<^verbatim>\<open>open\<close>.
\<close>

definition retry_open :: "exn \<Rightarrow> supervisor \<Rightarrow> supervisor" where
  "retry_open e st1 =
     mark Sleep
       (if contains ''Port is already open'' (str_exn e) then serial_close st1
        else if contains ''PermissionError'' (str_exn e)
        then mark (Log ERROR (''Port '' @ port_name (ser st1) @ '' is already in use'')) st1
        else mark (Log INFO (''Waiting for serial connection on ''
                     @ port_name (ser st1) @ ''...'')) st1)"

text \<open>
  A Redirector whose \<^verbatim>\<open>shortcircuit\<close> has run has the flag and both threads; the
  Redirector that a session constructs; the events of the \<^verbatim>\<open>finally\<close> block after
  \<^verbatim>\<open>r.stop()\<close>.
\<close>

definition started :: "redirector \<Rightarrow> bool" where
  "started r = (alive r \<noteq> None \<and> thread_read r \<noteq> Unstarted \<and> thread_poll r \<noteq> Unstarted)"

definition session_redirector :: "client_socket \<Rightarrow> supervisor \<Rightarrow> redirector" where
  "session_redirector c st =
     new_redirector ((ser st)\<lparr>dtr := True, rts := True\<rparr>) c (new_port_manager st)
       (history st @ [Log INFO (''Connected to '' @ port_name (ser st)), Serial_get_settings,
                      Serial_dtr True, Serial_rts True, New_redirector])"

definition teardown_events :: "serial_settings \<Rightarrow> event list" where
  "teardown_events snapshot =
     [Client_close, Serial_dtr False, Serial_rts False, Serial_apply_settings snapshot,
      Serial_close]"



section \<open>Theorems\<close>

subsection \<open>Turns of the reader and of the poller\<close>

lemma session_steps_refl: "session_steps r r"
  by (simp add: session_steps_def)

lemma session_steps_trans:
  "session_steps r r' \<Longrightarrow> session_steps r' r'' \<Longrightarrow> session_steps r r''"
  by (auto simp: session_steps_def)

lemma emit_simps [simp]:
  "trace (emit e r) = trace r @ [e]"
  "alive (emit e r) = alive r"
  "thread_read (emit e r) = thread_read r"
  "thread_poll (emit e r) = thread_poll r"
  "serial (emit e r) = serial r"
  "socket (emit e r) = socket r"
  "rfc2217 (emit e r) = rfc2217 r"
  by (simp_all add: emit_def)

lemma write_socket_simps [simp]:
  "trace (snd (write_socket d r)) = trace r"
  "alive (snd (write_socket d r)) = alive r"
  "thread_read (snd (write_socket d r)) = thread_read r"
  "thread_poll (snd (write_socket d r)) = thread_poll r"
  "serial (snd (write_socket d r)) = serial r"
  "rfc2217 (snd (write_socket d r)) = rfc2217 r"
  by (simp_all add: write_socket_def split: prod.splits)

lemma reader_exit_simps [simp]:
  "alive (reader_exit r) = Some False"
  "thread_read (reader_exit r) = Finished"
  "thread_poll (reader_exit r) = thread_poll r"
  "trace (reader_exit r) = trace r @ [Set_alive False, Log DEBUG ''Reader thread terminated'']"
  by (simp_all add: reader_exit_def)

lemma reader_turn_steps: "session_steps r (reader_turn r)"
  by (auto simp: session_steps_def reader_turn_def reader_except_def write_socket_def
      split: option.splits bool.splits prod.splits sum.splits if_splits)

lemma poller_turn_steps: "session_steps r (poller_turn r)"
  by (auto simp: session_steps_def poller_turn_def
      split: option.splits bool.splits prod.splits if_splits)

lemma reader_turn_alive:
  "alive (reader_turn r) = Some True \<Longrightarrow> alive r = Some True"
  by (auto simp: reader_turn_def reader_except_def write_socket_def
      split: option.splits bool.splits prod.splits sum.splits if_splits)

lemma reader_turn_alive_None:
  "(alive (reader_turn r) = None) = (alive r = None)"
  by (auto simp: reader_turn_def reader_except_def write_socket_def
      split: option.splits bool.splits prod.splits sum.splits if_splits)

lemma reader_turn_thread_poll [simp]: "thread_poll (reader_turn r) = thread_poll r"
  by (auto simp: reader_turn_def reader_except_def write_socket_def
      split: option.splits bool.splits prod.splits sum.splits if_splits)

lemma reader_turn_Unstarted [simp]:
  "(thread_read (reader_turn r) = Unstarted) = (thread_read r = Unstarted)"
  by (auto simp: reader_turn_def reader_except_def write_socket_def
      split: option.splits bool.splits prod.splits sum.splits if_splits)

lemma poller_turn_alive [simp]: "alive (poller_turn r) = alive r"
  by (auto simp: poller_turn_def split: option.splits bool.splits prod.splits if_splits)

lemma poller_turn_thread_read [simp]: "thread_read (poller_turn r) = thread_read r"
  by (auto simp: poller_turn_def split: option.splits bool.splits prod.splits if_splits)

lemma poller_turn_Unstarted [simp]:
  "(thread_poll (poller_turn r) = Unstarted) = (thread_poll r = Unstarted)"
  by (auto simp: poller_turn_def split: option.splits bool.splits prod.splits if_splits)

lemma reader_turn_stopped:
  "alive r = Some False \<Longrightarrow> thread_read (reader_turn r) \<noteq> Running"
  by (simp add: reader_turn_def)

lemma reader_turn_stopped_alive:
  "alive r = Some False \<Longrightarrow> alive (reader_turn r) = Some False"
  by (simp add: reader_turn_def)

lemma poller_turn_stopped:
  "alive r = Some False \<Longrightarrow> thread_poll (poller_turn r) \<noteq> Running"
  by (simp add: poller_turn_def)


subsection \<open>Lemmas on stop and on the writer\<close>

lemma join_read_stopped:
  assumes "alive r = Some False" "thread_read r \<noteq> Unstarted"
  shows "join_read r = (Return (), emit (Thread_join Thread_read) (reader_turn r))"
  using assms reader_turn_stopped [of r]
  by (cases "thread_read r") (simp_all add: join_read_def Let_def)

lemma join_poll_stopped:
  assumes "alive r = Some False" "thread_poll r \<noteq> Unstarted"
  shows "join_poll r = (Return (), emit (Thread_join Thread_poll) (poller_turn r))"
  using assms poller_turn_stopped [of r]
  by (cases "thread_poll r") (simp_all add: join_poll_def Let_def)

lemma stop_False:
  "alive r = Some False \<Longrightarrow> stop r = (Return (), emit (Log DEBUG ''Stopping'') r)"
  by (simp add: stop_def Let_def)

lemma stop_None:
  "alive r = None \<Longrightarrow> stop r = (Raised (AttributeError ''alive''), emit (Log DEBUG ''Stopping'') r)"
  by (simp add: stop_def Let_def)


lemma stopping_simps [simp]:
  "alive (stopping r) = Some False"
  "thread_read (stopping r) = thread_read r"
  "thread_poll (stopping r) = thread_poll r"
  "trace (stopping r) = trace r @ [Log DEBUG ''Stopping'', Set_alive False]"
  by (simp_all add: stopping_def emit_def)

lemma stop_True:
  assumes "alive r = Some True" "thread_read r \<noteq> Unstarted" "thread_poll r \<noteq> Unstarted"
  shows "stop r =
    (Return (),
     emit (Thread_join Thread_poll)
       (poller_turn (emit (Thread_join Thread_read) (reader_turn (stopping r)))))"
proof -
  let ?r1 = "stopping r"
  have j: "join_read ?r1 = (Return (), emit (Thread_join Thread_read) (reader_turn ?r1))"
    using assms by (intro join_read_stopped) simp_all
  let ?r2 = "emit (Thread_join Thread_read) (reader_turn ?r1)"
  have a2: "alive ?r2 = Some False"
    by (simp add: reader_turn_stopped_alive)
  have p: "join_poll ?r2 = (Return (), emit (Thread_join Thread_poll) (poller_turn ?r2))"
    using assms a2 by (intro join_poll_stopped) simp_all
  show ?thesis
    using assms j p by (simp add: stop_def Let_def stopping_def)
qed

lemma stop_steps: "session_steps r (snd (stop r))"
proof (cases "alive r")
  case None
  then show ?thesis by (simp add: stop_None session_steps_def)
next
  case (Some b)
  show ?thesis
  proof (cases b)
    case False
    with Some show ?thesis by (simp add: stop_False session_steps_def)
  next
    case True
    let ?r1 = "stopping r"
    have s1: "session_steps r ?r1" by (simp add: session_steps_def)
    have s2: "session_steps ?r1 (reader_turn ?r1)" by (rule reader_turn_steps)
    let ?r2 = "emit (Thread_join Thread_read) (reader_turn ?r1)"
    have s3: "session_steps (reader_turn ?r1) ?r2" by (simp add: session_steps_def)
    have s4: "session_steps ?r2 (poller_turn ?r2)" by (rule poller_turn_steps)
    have s5: "session_steps (poller_turn ?r2) (emit (Thread_join Thread_poll) (poller_turn ?r2))"
      by (simp add: session_steps_def)
    have s12: "session_steps r ?r2"
      using s1 s2 s3 by (blast intro: session_steps_trans)
    have jr: "snd (join_read ?r1) = reader_turn ?r1 \<or> snd (join_read ?r1) = ?r2
              \<or> snd (join_read ?r1) = ?r1"
      by (cases "thread_read r") (simp_all add: join_read_def Let_def)
    show ?thesis
    proof (cases "thread_read r = Unstarted")
      case True
      with \<open>alive r = Some b\<close> \<open>b\<close> s1 show ?thesis
        by (simp add: stop_def Let_def join_read_def stopping_def)
    next
      case ur: False
      have j: "join_read ?r1 = (Return (), ?r2)"
        using ur by (intro join_read_stopped) simp_all
      show ?thesis
      proof (cases "thread_poll r = Unstarted")
        case True
        with Some \<open>b\<close> j s12 show ?thesis
          by (simp add: stop_def Let_def join_poll_def stopping_def)
      next
        case False
        with Some \<open>b\<close> ur have "stop r = (Return (), emit (Thread_join Thread_poll) (poller_turn ?r2))"
          by (simp add: stop_True)
        with s12 s4 s5 show ?thesis
          by (auto intro: session_steps_trans)
      qed
    qed
  qed
qed

lemma stop_alive: "alive (snd (stop r)) \<noteq> Some True"
proof (cases "alive r")
  case None
  then show ?thesis by (simp add: stop_None)
next
  case (Some b)
  show ?thesis
  proof (cases b)
    case False
    with Some show ?thesis by (simp add: stop_False)
  next
    case True
    let ?r1 = "stopping r"
    have a: "alive (reader_turn ?r1) = Some False"
      by (simp add: reader_turn_stopped_alive)
    have "alive (snd (join_read ?r1)) = Some False"
      using a by (cases "thread_read r") (simp_all add: join_read_def Let_def)
    moreover have "\<And>q. alive q = Some False \<Longrightarrow> alive (snd (join_poll q)) = Some False"
      by (simp add: join_poll_def Let_def split: thread_state.splits)
    ultimately show ?thesis
      using Some True
      by (auto simp: stop_def Let_def stopping_def split: prod.splits result.splits)
  qed
qed


lemma join_raises:
  "fst (join_read r) = Raised e \<Longrightarrow> \<not> is_socket_error e"
  "fst (join_poll r) = Raised e \<Longrightarrow> \<not> is_socket_error e"
  by (auto simp: join_read_def join_poll_def Let_def split: thread_state.splits if_splits)

lemma stop_raises:
  assumes "fst (stop r) = Raised e"
  shows "\<not> is_socket_error e"
proof (cases "alive r")
  case None
  with assms show ?thesis by (auto simp: stop_None)
next
  case (Some b)
  show ?thesis
  proof (cases b)
    case False
    with Some assms show ?thesis by (simp add: stop_False)
  next
    case True
    obtain x q where j: "join_read (stopping r) = (x, q)"
      by (cases "join_read (stopping r)")
    show ?thesis
    proof (cases x)
      case (Return u)
      with Some True j assms have "fst (join_poll q) = Raised e"
        by (simp add: stop_def Let_def stopping_def)
      then show ?thesis by (rule join_raises)
    next
      case (Raised e')
      with Some True j assms have "e' = e"
        by (simp add: stop_def Let_def stopping_def)
      with Raised j have "fst (join_read (stopping r)) = Raised e" by simp
      then show ?thesis by (rule join_raises)
    next
      case Hangs
      with Some True j assms show ?thesis
        by (simp add: stop_def Let_def stopping_def)
    qed
  qed
qed

lemma writer_except_cases:
  "writer_except e r = (Continue, r) \<and> e = BlockingIOError
   \<or> writer_except e r = (Break, emit (Log ERROR (str_exn e)) r)
       \<and> is_socket_error e \<and> e \<noteq> BlockingIOError
   \<or> writer_except e r = (Uncaught e, r) \<and> \<not> is_socket_error e"
  by (auto simp: writer_except_def)

lemma writer_except_steps: "session_steps r (snd (writer_except e r))"
  using writer_except_cases [of e r] by (auto simp: session_steps_def)

lemma writer_except_fields [simp]:
  "alive (snd (writer_except e r)) = alive r"
  "thread_read (snd (writer_except e r)) = thread_read r"
  "thread_poll (snd (writer_except e r)) = thread_poll r"
  using writer_except_cases [of e r] by auto

lemma writer_except_trace:
  "\<exists>evs. trace (snd (writer_except e r)) = trace r @ evs \<and> list_all session_event evs"
  using writer_except_cases [of e r] by auto

lemma writer_except_Uncaught:
  "fst (writer_except e r) = Uncaught e' \<Longrightarrow> e' = e \<and> \<not> is_socket_error e"
  using writer_except_cases [of e r] by auto

lemma writer_body_fields [simp]:
  "alive (snd (writer_body r)) = alive r"
  "thread_read (snd (writer_body r)) = thread_read r"
  "thread_poll (snd (writer_body r)) = thread_poll r"
  by (simp_all add: writer_body_def split: prod.splits sum.splits)

lemma writer_except_steps':
  "trace r' = trace r \<Longrightarrow> session_steps r (snd (writer_except e r'))"
  using writer_except_cases [of e r'] by (auto simp: session_steps_def)

lemma writer_body_steps: "session_steps r (snd (writer_body r))"
  by (auto simp: writer_body_def session_steps_refl split: prod.splits sum.splits
      intro!: writer_except_steps' intro: session_steps_def [THEN iffD2])

lemma writer_body_Uncaught:
  "fst (writer_body r) = Uncaught e \<Longrightarrow> \<not> is_socket_error e"
  by (auto simp: writer_body_def split: prod.splits sum.splits if_splits
      dest: writer_except_Uncaught)

lemma writer_exit_steps: "session_steps r (snd (writer_exit r))"
proof -
  have "session_steps r (emit (Log DEBUG ''Writer thread terminated'') r)"
    by (simp add: session_steps_def)
  then show ?thesis
    unfolding writer_exit_def by (rule session_steps_trans) (rule stop_steps)
qed

lemma writer_steps: "session_steps r (snd (writer sched r))"
proof (induction sched arbitrary: r)
  case Nil
  show ?case
    using writer_exit_steps [of r]
    by (auto simp: session_steps_refl split: option.splits bool.splits)
next
  case (Cons t ts)
  show ?case
  proof (cases "alive r")
    case None
    then show ?thesis by (simp add: session_steps_refl)
  next
    case (Some b)
    show ?thesis
    proof (cases b)
      case False
      with Some show ?thesis using writer_exit_steps [of r] by simp
    next
      case True
      show ?thesis
      proof (cases t)
        case T_reader
        with Some True show ?thesis
          using session_steps_trans [OF reader_turn_steps Cons.IH] by simp
      next
        case T_poller
        with Some True show ?thesis
          using session_steps_trans [OF poller_turn_steps Cons.IH] by simp
      next
        case T_writer
        obtain x r' where wb: "writer_body r = (x, r')" by (cases "writer_body r")
        have s: "session_steps r r'" using writer_body_steps [of r] wb by simp
        show ?thesis
        proof (cases x)
          case Continue
          with T_writer Some True wb show ?thesis
            using session_steps_trans [OF s Cons.IH] by simp
        next
          case Break
          with T_writer Some True wb show ?thesis
            using session_steps_trans [OF s writer_exit_steps] by simp
        next
          case (Uncaught e)
          with T_writer Some True wb s show ?thesis by simp
        qed
      qed
    qed
  qed
qed

lemma start_threads_simps [simp]:
  "alive (start_threads r) = Some True"
  "thread_read (start_threads r) = Running"
  "thread_poll (start_threads r) = Running"
  "trace (start_threads r) = trace r @ [Set_alive True, Thread_start Thread_read,
     Log DEBUG ''Reader thread started'', Thread_start Thread_poll,
     Log DEBUG ''Status line poll thread started'']"
  by (simp_all add: start_threads_def Let_def emit_def)

subsection \<open>C9: the verbosity flag\<close>

text \<open>
  C9, as stated, fails at count 0: the claim says that count 0 gives warnings-only
  logging, but \<^verbatim>\<open>levels[0]\<close> is \<^verbatim>\<open>NOTSET\<close>, so both loggers defer to the root
  logger, which is at \<^verbatim>\<open>INFO\<close>; warnings-only is count 1.
\<close>

theorem C9_count_zero_is_not_warning:
  "redirector_level (configure_logging 0) = NOTSET
   \<and> rfc2217_level (configure_logging 0) = NOTSET
   \<and> redirector_level (configure_logging 0) \<noteq> WARNING
   \<and> effective_level (configure_logging 0) (redirector_level (configure_logging 0)) = INFO
   \<and> redirector_level (configure_logging 1) = WARNING"
  by (simp add: configure_logging_def clamp_verbosity_def levels_def effective_level_def)

text \<open>
  C9, amended: count 0 maps to \<^verbatim>\<open>NOTSET\<close> (the logger inherits the root level
  \<^verbatim>\<open>INFO\<close>), count 1 to \<^verbatim>\<open>WARNING\<close>, count 2 to \<^verbatim>\<open>INFO\<close> and every count from 3 on
  to \<^verbatim>\<open>DEBUG\<close>, so a count above 3 behaves as 3; the core logger and the logger of the
  protocol collaborator always get the same level.
\<close>

theorem C9_verbosity_levels:
  "redirector_level (configure_logging v) =
     (if v = 0 then NOTSET else if v = 1 then WARNING else if v = 2 then INFO else DEBUG)
   \<and> rfc2217_level (configure_logging v) = redirector_level (configure_logging v)
   \<and> configure_logging (v + 3) = configure_logging 3"
proof -
  have c: "clamp_verbosity v = 0 \<or> clamp_verbosity v = 1 \<or> clamp_verbosity v = 2
           \<or> clamp_verbosity v = 3"
    by (auto simp: clamp_verbosity_def)
  have l: "redirector_level (configure_logging v) = levels ! clamp_verbosity v"
    and r: "rfc2217_level (configure_logging v) = levels ! clamp_verbosity v"
    by (simp_all add: configure_logging_def Let_def)
  have k: "clamp_verbosity (v + 3) = clamp_verbosity 3"
    by (simp add: clamp_verbosity_def)
  have "levels ! clamp_verbosity v =
     (if v = 0 then NOTSET else if v = 1 then WARNING else if v = 2 then INFO else DEBUG)"
    by (auto simp: clamp_verbosity_def levels_def numeral_3_eq_3 numeral_2_eq_2
        nth_Cons split: nat.splits)
  with l r k show ?thesis
    by (simp add: configure_logging_def)
qed

subsection \<open>C6: stop\<close>

text \<open>
  C6: \<^verbatim>\<open>stop()\<close> on a Redirector whose flag is already false returns at once: it
  raises nothing, joins nothing, and changes nothing but the trace, which gets the
  debug line that \<^verbatim>\<open>stop\<close> logs first. On a Redirector whose flag is true (so its
  threads exist) it logs, clears the flag, joins the reader and then the poller, and
  returns when neither is running any more. A second \<^verbatim>\<open>stop()\<close> then only adds its
  debug line: but for that line, \<^verbatim>\<open>stop();stop()\<close> is \<^verbatim>\<open>stop()\<close>.
\<close>

theorem C6_stop:
  "(alive r = Some False \<longrightarrow>
      stop r = (Return (), r\<lparr>trace := trace r @ [Log DEBUG ''Stopping'']\<rparr>))
   \<and> (alive r = Some True \<and> thread_read r \<noteq> Unstarted \<and> thread_poll r \<noteq> Unstarted \<longrightarrow>
        fst (stop r) = Return ()
        \<and> alive (snd (stop r)) = Some False
        \<and> thread_read (snd (stop r)) \<noteq> Running
        \<and> thread_poll (snd (stop r)) \<noteq> Running
        \<and> (\<exists>evs_read evs_poll.
              trace (snd (stop r)) =
                trace r @ [Log DEBUG ''Stopping'', Set_alive False] @ evs_read
                  @ [Thread_join Thread_read] @ evs_poll @ [Thread_join Thread_poll])
        \<and> stop (snd (stop r)) =
            (Return (), (snd (stop r))\<lparr>trace := trace (snd (stop r)) @ [Log DEBUG ''Stopping'']\<rparr>))"
proof (intro conjI impI)
  assume "alive r = Some False"
  then show "stop r = (Return (), r\<lparr>trace := trace r @ [Log DEBUG ''Stopping'']\<rparr>)"
    by (simp add: stop_False emit_def)
next
  assume a: "alive r = Some True \<and> thread_read r \<noteq> Unstarted \<and> thread_poll r \<noteq> Unstarted"
  let ?r1 = "stopping r"
  let ?r2 = "emit (Thread_join Thread_read) (reader_turn ?r1)"
  let ?r3 = "emit (Thread_join Thread_poll) (poller_turn ?r2)"
  have st: "stop r = (Return (), ?r3)" using a by (simp add: stop_True)
  have a2: "alive ?r2 = Some False" by (simp add: reader_turn_stopped_alive)
  have a3: "alive ?r3 = Some False" using a2 by simp
  show "fst (stop r) = Return ()" using st by simp
  show "alive (snd (stop r)) = Some False" using st a3 by simp
  show "thread_read (snd (stop r)) \<noteq> Running"
    using st reader_turn_stopped [of ?r1] by simp
  show "thread_poll (snd (stop r)) \<noteq> Running"
    using st poller_turn_stopped [OF a2] by simp
  obtain e1 where e1: "trace (reader_turn ?r1) = trace ?r1 @ e1"
    using reader_turn_steps [of ?r1] by (auto simp: session_steps_def)
  obtain e2 where e2: "trace (poller_turn ?r2) = trace ?r2 @ e2"
    using poller_turn_steps [of ?r2] by (auto simp: session_steps_def)
  have "trace ?r3 = trace r @ [Log DEBUG ''Stopping'', Set_alive False] @ e1
                  @ [Thread_join Thread_read] @ e2 @ [Thread_join Thread_poll]"
    using e1 e2 by simp
  then show "\<exists>evs_read evs_poll.
              trace (snd (stop r)) =
                trace r @ [Log DEBUG ''Stopping'', Set_alive False] @ evs_read
                  @ [Thread_join Thread_read] @ evs_poll @ [Thread_join Thread_poll]"
    using st by (metis snd_conv)
  show "stop (snd (stop r)) =
            (Return (), (snd (stop r))\<lparr>trace := trace (snd (stop r)) @ [Log DEBUG ''Stopping'']\<rparr>)"
    using st a3 by (simp add: stop_False emit_def)
qed

theorem C6_stop_witness:
  "alive (start_threads (demo_redirector [])) = Some True
   \<and> fst (stop (start_threads (demo_redirector []))) = Return ()
   \<and> alive (snd (stop (start_threads (demo_redirector [])))) = Some False
   \<and> thread_read (snd (stop (start_threads (demo_redirector [])))) \<noteq> Running
   \<and> alive (snd (stop (start_threads (demo_redirector [])))) = Some False
   \<and> fst (stop (snd (stop (start_threads (demo_redirector []))))) = Return ()"
  using C6_stop [of "start_threads (demo_redirector [])"]
        C6_stop [of "snd (stop (start_threads (demo_redirector [])))"]
  by simp

subsection \<open>C7: the liveness flag is a one-shot latch\<close>

lemma alive_writes_append: "alive_writes (xs @ ys) = alive_writes xs @ alive_writes ys"
  by (induction xs rule: alive_writes.induct) simp_all

lemma alive_writes_session:
  "list_all session_event evs \<Longrightarrow> \<exists>k. alive_writes evs = replicate k False"
proof (induction evs rule: alive_writes.induct)
  case 1
  then show ?case by simp
next
  case (2 b es)
  then obtain k where "alive_writes es = replicate k False" by auto
  with 2 have "alive_writes (Set_alive b # es) = replicate (Suc k) False" by simp
  then show ?case by blast
qed simp_all

lemma session_steps_writes:
  assumes "session_steps r r'"
  shows "\<exists>k. alive_writes (trace r') = alive_writes (trace r) @ replicate k False"
proof -
  from assms obtain evs where e: "trace r' = trace r @ evs" "list_all session_event evs"
    by (auto simp: session_steps_def)
  from alive_writes_session [OF e(2)] obtain k where "alive_writes evs = replicate k False" ..
  with e(1) show ?thesis by (auto simp: alive_writes_append)
qed

lemma writer_stopped: "alive r = Some False \<Longrightarrow> writer sched r = writer_exit r"
  by (cases sched) simp_all

lemma writer_exit_stopped:
  "alive r = Some False \<Longrightarrow> alive (snd (writer_exit r)) = Some False"
  by (simp add: writer_exit_def stop_False)

lemma perform_steps: "session_steps r (perform op r)"
  by (cases op)
     (simp_all add: reader_turn_steps poller_turn_steps writer_steps stop_steps
        session_steps_def [of r "snd (write_socket _ r)"])

lemma perform_stopped: "alive r = Some False \<Longrightarrow> alive (perform op r) = Some False"
  by (cases op)
     (simp_all add: reader_turn_stopped_alive writer_stopped writer_exit_stopped stop_False)

lemma fold_perform_steps: "session_steps r (fold perform ops r)"
proof (induction ops arbitrary: r)
  case Nil
  show ?case by (simp add: session_steps_refl)
next
  case (Cons op ops)
  show ?case
    using session_steps_trans [OF perform_steps Cons.IH] by simp
qed

lemma fold_perform_stopped:
  "alive r = Some False \<Longrightarrow> alive (fold perform ops r) = Some False"
  by (induction ops arbitrary: r) (simp_all add: perform_stopped)

text \<open>
  C7: \<^verbatim>\<open>shortcircuit\<close> assigns \<open>True\<close> to the flag once, at its start, and every
  assignment after that one, in the whole call, is \<open>False\<close>. No other operation of a
  Redirector (a turn of the reader or of the poller, \<^verbatim>\<open>write\<close>, the writer loop,
  \<^verbatim>\<open>stop\<close>), in any number and order, ever assigns \<open>True\<close>; so once the flag is
  false it stays false, whatever runs afterwards.
\<close>

theorem C7_latch:
  "(\<exists>k. alive_writes (trace (snd (shortcircuit sched r)))
          = alive_writes (trace r) @ True # replicate k False)
   \<and> (\<exists>k. alive_writes (trace (fold perform ops r))
          = alive_writes (trace r) @ replicate k False)
   \<and> (alive r = Some False \<longrightarrow> alive (fold perform ops r) = Some False)"
proof (intro conjI impI)
  have "session_steps (start_threads r) (snd (writer sched (start_threads r)))"
    by (rule writer_steps)
  from session_steps_writes [OF this] obtain k where
    "alive_writes (trace (snd (writer sched (start_threads r))))
       = alive_writes (trace (start_threads r)) @ replicate k False" ..
  then have "alive_writes (trace (snd (shortcircuit sched r)))
          = alive_writes (trace r) @ True # replicate k False"
    by (simp add: shortcircuit_def alive_writes_append)
  then show "\<exists>k. alive_writes (trace (snd (shortcircuit sched r)))
          = alive_writes (trace r) @ True # replicate k False" ..
next
  show "\<exists>k. alive_writes (trace (fold perform ops r))
          = alive_writes (trace r) @ replicate k False"
    by (rule session_steps_writes) (rule fold_perform_steps)
next
  assume "alive r = Some False"
  then show "alive (fold perform ops r) = Some False" by (rule fold_perform_stopped)
qed


theorem C7_latch_witness:
  "alive (snd (shortcircuit [T_writer] (demo_redirector []))) = Some False
   \<and> alive (fold perform [Op_reader, Op_writer [T_writer], Op_poller, Op_stop]
        (snd (shortcircuit [T_writer] (demo_redirector [])))) = Some False"
proof -
  have a: "alive (snd (shortcircuit [T_writer] (demo_redirector []))) = Some False"
    by (simp add: shortcircuit_def start_threads_def Let_def emit_def writer_body_def
        recv_def demo_redirector_def new_redirector_def demo_socket_def writer_exit_def
        stop_def join_read_def join_poll_def reader_turn_def poller_turn_def
        reader_exit_def)
  with C7_latch [where r = "snd (shortcircuit [T_writer] (demo_redirector []))"
      and ops = "[Op_reader, Op_writer [T_writer], Op_poller, Op_stop]"]
  show ?thesis by blast
qed

subsection \<open>Results of the writer and crashes of the reader\<close>

lemma stop_returns_stopped:
  assumes "fst (stop r) = Return u"
  shows "alive (snd (stop r)) = Some False"
proof (cases "alive r")
  case None
  with assms show ?thesis by (simp add: stop_None)
next
  case (Some b)
  show ?thesis
  proof (cases b)
    case False
    with Some show ?thesis by (simp add: stop_False)
  next
    case True
    have a: "alive (reader_turn (stopping r)) = Some False"
      by (simp add: reader_turn_stopped_alive)
    have "alive (snd (join_read (stopping r))) = Some False"
      using a by (cases "thread_read r") (simp_all add: join_read_def Let_def)
    moreover have "\<And>q. alive q = Some False \<Longrightarrow> alive (snd (join_poll q)) = Some False"
      by (simp add: join_poll_def Let_def split: thread_state.splits)
    ultimately show ?thesis
      using Some True
      by (auto simp: stop_def Let_def stopping_def split: prod.splits result.splits)
  qed
qed

lemma writer_cases:
  "(\<exists>r'. writer sched r = writer_exit r')
   \<or> fst (writer sched r) = Hangs
   \<or> (\<exists>e. fst (writer sched r) = Raised e \<and> \<not> is_socket_error e)"
proof (induction sched arbitrary: r)
  case Nil
  show ?case by (auto split: option.splits bool.splits)
next
  case (Cons t ts)
  show ?case
  proof (cases "alive r")
    case None
    then show ?thesis by simp
  next
    case (Some b)
    show ?thesis
    proof (cases b)
      case False
      with Some show ?thesis by auto
    next
      case True
      show ?thesis
      proof (cases t)
        case T_reader
        with Some True Cons.IH [of "reader_turn r"] show ?thesis by simp
      next
        case T_poller
        with Some True Cons.IH [of "poller_turn r"] show ?thesis by simp
      next
        case T_writer
        obtain x r' where wb: "writer_body r = (x, r')" by (cases "writer_body r")
        show ?thesis
        proof (cases x)
          case Continue
          with T_writer Some True wb Cons.IH [of r'] show ?thesis by simp
        next
          case Break
          with T_writer Some True wb show ?thesis by auto
        next
          case (Uncaught e)
          with wb have "\<not> is_socket_error e"
            using writer_body_Uncaught [of r e] by simp
          with Uncaught T_writer Some True wb show ?thesis by simp
        qed
      qed
    qed
  qed
qed

lemma writer_raises:
  assumes "fst (writer sched r) = Raised e"
  shows "\<not> is_socket_error e"
proof -
  from writer_cases [of sched r] consider
      r' where "writer sched r = writer_exit r'"
    | "fst (writer sched r) = Hangs"
    | e' where "fst (writer sched r) = Raised e'" "\<not> is_socket_error e'"
    by blast
  then show ?thesis
  proof cases
    case 1
    with assms have "fst (stop (emit (Log DEBUG ''Writer thread terminated'') r')) = Raised e"
      by (simp add: writer_exit_def)
    then show ?thesis by (rule stop_raises)
  next
    case 2
    with assms show ?thesis by simp
  next
    case 3
    with assms show ?thesis by simp
  qed
qed

lemma writer_returns:
  assumes "fst (writer sched r) = Return u"
  shows "\<exists>r'. writer sched r = stop (emit (Log DEBUG ''Writer thread terminated'') r')"
  using writer_cases [of sched r] assms by (auto simp: writer_exit_def)

lemma writer_returns_stopped:
  assumes "fst (writer sched r) = Return u"
  shows "alive (snd (writer sched r)) = Some False"
proof -
  from writer_returns [OF assms] obtain r'
    where w: "writer sched r = stop (emit (Log DEBUG ''Writer thread terminated'') r')" ..
  with assms have "fst (stop (emit (Log DEBUG ''Writer thread terminated'') r')) = Return u"
    by simp
  from stop_returns_stopped [OF this] w show ?thesis by simp
qed

lemma reader_except_handled:
  "is_socket_error e \<Longrightarrow>
     thread_read (reader_except e r) = Finished
     \<and> alive (reader_except e r) = Some False
     \<and> trace (reader_except e r) =
         trace r @ [Log ERROR (str_exn e), Set_alive False, Log DEBUG ''Reader thread terminated'']"
  by (simp add: reader_except_def)

lemma reader_except_crash:
  "thread_read (reader_except e r) = Crashed e' \<Longrightarrow> \<not> is_socket_error e"
  by (auto simp: reader_except_def split: if_splits)

lemma reader_turn_crash:
  assumes "thread_read r = Running" "alive r = Some True"
    "thread_read (reader_turn r) = Crashed e"
  shows "\<not> is_socket_error e"
proof -
  obtain x p where sr: "serial_read (serial r) = (x, p)" by (cases "serial_read (serial r)")
  show ?thesis
  proof (cases x)
    case (Inl e')
    with assms sr have c: "thread_read (reader_except e' (r\<lparr>serial := p\<rparr>)) = Crashed e"
      by (simp add: reader_turn_def)
    then have "\<not> is_socket_error e'" by (rule reader_except_crash)
    with c show ?thesis by (simp add: reader_except_def)
  next
    case (Inr data)
    show ?thesis
    proof (cases "data = []")
      case True
      with Inr assms sr show ?thesis by (simp add: reader_turn_def)
    next
      case False
      obtain y q where ws: "write_socket (pm_escape (rfc2217 r) data) (r\<lparr>serial := p\<rparr>) = (y, q)"
        by (cases "write_socket (pm_escape (rfc2217 r) data) (r\<lparr>serial := p\<rparr>)")
      then have q: "thread_read q = Running"
        using assms(1) by (auto simp: write_socket_def split: prod.splits)
      show ?thesis
      proof (cases y)
        case (Inl e')
        with Inr False assms sr ws have c: "thread_read (reader_except e' q) = Crashed e"
          by (simp add: reader_turn_def)
        then have "\<not> is_socket_error e'" by (rule reader_except_crash)
        with c show ?thesis by (simp add: reader_except_def)
      next
        case (Inr u)
        with \<open>x = Inr data\<close> False assms sr ws q show ?thesis by (simp add: reader_turn_def)
      qed
    qed
  qed
qed

lemma reader_turn_read_error:
  assumes "thread_read r = Running" "alive r = Some True"
    "read_outcomes (serial r) = Inl e # rest"
  shows "reader_turn r = reader_except e (r\<lparr>serial := (serial r)\<lparr>read_outcomes := rest\<rparr>\<rparr>)"
  using assms by (simp add: reader_turn_def serial_read_def)



subsection \<open>One iteration of the writer loop\<close>

lemma writer_body_empty:
  "rx (socket r) = [] \<Longrightarrow> writer_body r = (Break, r)"
  by (simp add: writer_body_def recv_def)

lemma writer_body_raise:
  "rx (socket r) = Rx_raise e # rest \<Longrightarrow>
     writer_body r = writer_except e (r\<lparr>socket := (socket r)\<lparr>rx := rest\<rparr>\<rparr>)"
  by (simp add: writer_body_def recv_def)

lemma writer_body_rx:
  "rx (socket r) = Data d # rest \<Longrightarrow>
     rx (socket (snd (writer_body r))) =
       (if drop 1024 d = [] then rest else Data (drop 1024 d) # rest)"
  by (simp add: writer_body_def recv_def writer_except_def
      split: prod.splits sum.splits)

lemma writer_body_write_error:
  assumes "rx (socket r) = Data d # rest" "d \<noteq> []"
    "pm_filter (rfc2217 r) (take 1024 d) (settings (serial r)) = (Inr payload, cfg)"
    "write_outcomes (serial r) = Some e # ws"
  shows "writer_body r =
     writer_except e
       (r\<lparr>socket := (socket r)\<lparr>rx := (if drop 1024 d = [] then rest
                                        else Data (drop 1024 d) # rest)\<rparr>,
          serial := (serial r)\<lparr>settings := cfg, write_outcomes := ws\<rparr>\<rparr>)"
  using assms by (simp add: writer_body_def recv_def serial_write_def)

lemma writer_body_write_ok:
  assumes "rx (socket r) = Data d # rest" "d \<noteq> []"
    "pm_filter (rfc2217 r) (take 1024 d) (settings (serial r)) = (Inr payload, cfg)"
    "write_outcomes (serial r) = []"
  shows "fst (writer_body r) = Continue
     \<and> written (serial (snd (writer_body r))) = written (serial r) @ payload"
  using assms by (simp add: writer_body_def recv_def serial_write_def)

subsection \<open>Exceptions at the calls of the two loops\<close>

lemma writer_body_filter_error:
  assumes "rx (socket r) = Data d # rest" "d \<noteq> []"
    "pm_filter (rfc2217 r) (take 1024 d) (settings (serial r)) = (Inl e, cfg)"
  shows "writer_body r =
     writer_except e
       (r\<lparr>socket := (socket r)\<lparr>rx := (if drop 1024 d = [] then rest
                                        else Data (drop 1024 d) # rest)\<rparr>,
          serial := (serial r)\<lparr>settings := cfg\<rparr>\<rparr>)"
  using assms by (simp add: writer_body_def recv_def)

lemma writer_except_outcome:
  assumes "trace r' = trace r"
  shows "fst (writer_except e r') =
           (if e = BlockingIOError then Continue
            else if is_socket_error e then Break else Uncaught e)
         \<and> trace (snd (writer_except e r')) =
           (if is_socket_error e \<and> e \<noteq> BlockingIOError
            then trace r @ [Log ERROR (str_exn e)] else trace r)"
  using assms by (simp add: writer_except_def)

lemma writer_body_failure:
  assumes "rx (socket r) = Rx_raise e # rest
     \<or> (\<exists>d rest cfg. rx (socket r) = Data d # rest \<and> d \<noteq> []
           \<and> pm_filter (rfc2217 r) (take 1024 d) (settings (serial r)) = (Inl e, cfg))
     \<or> (\<exists>d rest payload cfg ws. rx (socket r) = Data d # rest \<and> d \<noteq> []
           \<and> pm_filter (rfc2217 r) (take 1024 d) (settings (serial r)) = (Inr payload, cfg)
           \<and> write_outcomes (serial r) = Some e # ws)"
  shows "fst (writer_body r) =
           (if e = BlockingIOError then Continue
            else if is_socket_error e then Break else Uncaught e)
         \<and> trace (snd (writer_body r)) =
           (if is_socket_error e \<and> e \<noteq> BlockingIOError
            then trace r @ [Log ERROR (str_exn e)] else trace r)"
proof -
  from assms consider
      (rcv) "rx (socket r) = Rx_raise e # rest"
    | (flt) d rest' cfg where "rx (socket r) = Data d # rest'" "d \<noteq> []"
        "pm_filter (rfc2217 r) (take 1024 d) (settings (serial r)) = (Inl e, cfg)"
    | (wrt) d rest' payload cfg ws where "rx (socket r) = Data d # rest'" "d \<noteq> []"
        "pm_filter (rfc2217 r) (take 1024 d) (settings (serial r)) = (Inr payload, cfg)"
        "write_outcomes (serial r) = Some e # ws"
    by blast
  then obtain r' where "writer_body r = writer_except e r'" "trace r' = trace r"
  proof cases
    case rcv
    from writer_body_raise [OF rcv] that show ?thesis by simp
  next
    case flt
    from writer_body_filter_error [OF flt] that show ?thesis by simp
  next
    case wrt
    from writer_body_write_error [OF wrt] that show ?thesis by simp
  qed
  with writer_except_outcome [of r' r e] show ?thesis by simp
qed

lemma reader_turn_send_error:
  assumes "thread_read r = Running" "alive r = Some True"
    "read_outcomes (serial r) = Inr data # rest" "data \<noteq> []"
    "tx_outcomes (socket r) = Some e # txs"
  shows "reader_turn r =
     reader_except e (r\<lparr>serial := (serial r)\<lparr>read_outcomes := rest\<rparr>,
                        socket := (socket r)\<lparr>tx_outcomes := txs\<rparr>\<rparr>)"
  using assms by (simp add: reader_turn_def serial_read_def write_socket_def sendall_def)

lemma reader_except_outcome:
  assumes "trace r' = trace r" "alive r' = Some True"
  shows "thread_read (reader_except e r') = (if is_socket_error e then Finished else Crashed e)
     \<and> alive (reader_except e r') = Some (\<not> is_socket_error e)
     \<and> trace (reader_except e r') =
         (if is_socket_error e
          then trace r @ [Log ERROR (str_exn e), Set_alive False,
                          Log DEBUG ''Reader thread terminated'']
          else trace r)"
  using assms by (simp add: reader_except_def)

lemma reader_turn_failure:
  assumes "thread_read r = Running" "alive r = Some True"
    "read_outcomes (serial r) = Inl e # rest
     \<or> (\<exists>data rest txs. read_outcomes (serial r) = Inr data # rest \<and> data \<noteq> []
           \<and> tx_outcomes (socket r) = Some e # txs)"
  shows "thread_read (reader_turn r) = (if is_socket_error e then Finished else Crashed e)
     \<and> alive (reader_turn r) = Some (\<not> is_socket_error e)
     \<and> trace (reader_turn r) =
         (if is_socket_error e
          then trace r @ [Log ERROR (str_exn e), Set_alive False,
                          Log DEBUG ''Reader thread terminated'']
          else trace r)"
proof -
  from assms(3) consider
      (rd) "read_outcomes (serial r) = Inl e # rest"
    | (snd) data rest' txs where "read_outcomes (serial r) = Inr data # rest'" "data \<noteq> []"
        "tx_outcomes (socket r) = Some e # txs"
    by blast
  then obtain r' where "reader_turn r = reader_except e r'" "trace r' = trace r"
    "alive r' = Some True"
  proof cases
    case rd
    from reader_turn_read_error [OF assms(1,2) rd] assms(2) that show ?thesis by simp
  next
    case snd
    from reader_turn_send_error [OF assms(1,2) snd] assms(2) that show ?thesis by simp
  qed
  with reader_except_outcome [of r' r e] show ?thesis by simp
qed

lemma stop_started:
  assumes "alive r = Some True" "thread_read r \<noteq> Unstarted" "thread_poll r \<noteq> Unstarted"
  shows "fst (stop r) = Return ()"
    and "alive (snd (stop r)) = Some False"
    and "thread_read (snd (stop r)) \<noteq> Running"
    and "thread_poll (snd (stop r)) \<noteq> Running"
    and "\<exists>evs_read evs_poll.
           trace (snd (stop r)) =
             trace r @ [Log DEBUG ''Stopping'', Set_alive False] @ evs_read
               @ [Thread_join Thread_read] @ evs_poll @ [Thread_join Thread_poll]"
proof -
  let ?r1 = "stopping r"
  let ?r2 = "emit (Thread_join Thread_read) (reader_turn ?r1)"
  let ?r3 = "emit (Thread_join Thread_poll) (poller_turn ?r2)"
  have st: "stop r = (Return (), ?r3)" using assms by (simp add: stop_True)
  have a2: "alive ?r2 = Some False" by (simp add: reader_turn_stopped_alive)
  show "fst (stop r) = Return ()" using st by simp
  show "alive (snd (stop r)) = Some False" using st a2 by simp
  show "thread_read (snd (stop r)) \<noteq> Running"
    using st reader_turn_stopped [of ?r1] by simp
  show "thread_poll (snd (stop r)) \<noteq> Running"
    using st poller_turn_stopped [OF a2] by simp
  obtain e1 where e1: "trace (reader_turn ?r1) = trace ?r1 @ e1"
    using reader_turn_steps [of ?r1] by (auto simp: session_steps_def)
  obtain e2 where e2: "trace (poller_turn ?r2) = trace ?r2 @ e2"
    using poller_turn_steps [of ?r2] by (auto simp: session_steps_def)
  have "trace ?r3 = trace r @ [Log DEBUG ''Stopping'', Set_alive False] @ e1
                  @ [Thread_join Thread_read] @ e2 @ [Thread_join Thread_poll]"
    using e1 e2 by simp
  then show "\<exists>evs_read evs_poll.
           trace (snd (stop r)) =
             trace r @ [Log DEBUG ''Stopping'', Set_alive False] @ evs_read
               @ [Thread_join Thread_read] @ evs_poll @ [Thread_join Thread_poll]"
    using st by (metis snd_conv)
qed

lemma writer_turn_Break:
  assumes "alive r = Some True" "fst (writer_body r) = Break"
  shows "writer (T_writer # sched) r =
           stop (emit (Log DEBUG ''Writer thread terminated'') (snd (writer_body r)))"
  using assms by (cases "writer_body r") (simp add: writer_exit_def)

lemma writer_turn_Continue:
  assumes "alive r = Some True" "fst (writer_body r) = Continue"
  shows "writer (T_writer # sched) r = writer sched (snd (writer_body r))"
  using assms by (cases "writer_body r") simp

lemma writer_turn_Uncaught:
  assumes "alive r = Some True" "fst (writer_body r) = Uncaught e"
  shows "writer (T_writer # sched) r = (Raised e, snd (writer_body r))"
  using assms by (cases "writer_body r") simp

lemma writer_turn_Break_joined:
  assumes "alive r = Some True" "thread_read r \<noteq> Unstarted" "thread_poll r \<noteq> Unstarted"
    "fst (writer_body r) = Break"
  shows "fst (writer (T_writer # sched) r) = Return ()"
    and "alive (snd (writer (T_writer # sched) r)) = Some False"
    and "thread_read (snd (writer (T_writer # sched) r)) \<noteq> Running"
    and "thread_poll (snd (writer (T_writer # sched) r)) \<noteq> Running"
    and "\<exists>evs_read evs_poll.
           trace (snd (writer (T_writer # sched) r)) =
             trace (snd (writer_body r))
               @ [Log DEBUG ''Writer thread terminated'', Log DEBUG ''Stopping'',
                  Set_alive False] @ evs_read
               @ [Thread_join Thread_read] @ evs_poll @ [Thread_join Thread_poll]"
proof -
  let ?q = "emit (Log DEBUG ''Writer thread terminated'') (snd (writer_body r))"
  have w: "writer (T_writer # sched) r = stop ?q"
    using assms(1,4) by (rule writer_turn_Break)
  have q: "alive ?q = Some True" "thread_read ?q \<noteq> Unstarted" "thread_poll ?q \<noteq> Unstarted"
    using assms by simp_all
  show "fst (writer (T_writer # sched) r) = Return ()"
    unfolding w by (rule stop_started [OF q])
  show "alive (snd (writer (T_writer # sched) r)) = Some False"
    unfolding w by (rule stop_started [OF q])
  show "thread_read (snd (writer (T_writer # sched) r)) \<noteq> Running"
    unfolding w by (rule stop_started [OF q])
  show "thread_poll (snd (writer (T_writer # sched) r)) \<noteq> Running"
    unfolding w by (rule stop_started [OF q])
  from stop_started(5) [OF q] show "\<exists>evs_read evs_poll.
           trace (snd (writer (T_writer # sched) r)) =
             trace (snd (writer_body r))
               @ [Log DEBUG ''Writer thread terminated'', Log DEBUG ''Stopping'',
                  Set_alive False] @ evs_read
               @ [Thread_join Thread_read] @ evs_poll @ [Thread_join Thread_poll]"
    unfolding w by simp
qed

lemma writer_flag_False:
  assumes "alive r = Some False"
  shows "writer sched r =
    (Return (), r\<lparr>trace := trace r @ [Log DEBUG ''Writer thread terminated'',
                                       Log DEBUG ''Stopping'']\<rparr>)"
  using assms by (cases sched) (simp_all add: writer_exit_def stop_False emit_def)

lemma start_threads_devices [simp]:
  "socket (start_threads r) = socket r"
  "serial (start_threads r) = serial r"
  "rfc2217 (start_threads r) = rfc2217 r"
  by (simp_all add: start_threads_def Let_def emit_def)

subsection \<open>C4: failures in the reader and in the writer\<close>

text \<open>
  C4, as stated, fails: the two loops catch \<^verbatim>\<open>socket.error\<close> only, that is
  \<^verbatim>\<open>OSError\<close> and its subclasses. An exception of another class raised by the
  protocol filter leaves the writer loop and \<^verbatim>\<open>shortcircuit()\<close>; one raised by the
  serial read ends the reader thread without the flag being cleared and without a
  line being logged.
\<close>

theorem C4_uncaught_exception_escapes:
  "fst (shortcircuit [T_writer]
         (new_redirector (demo_serial\<lparr>is_open := True\<rparr>) (demo_socket [Data [255]])
            failing_manager []))
     = Raised (OtherException ''struct.error'')
   \<and> thread_read (reader_turn (reading_redirector [Inl (OtherException ''TypeError'')]))
       = Crashed (OtherException ''TypeError'')
   \<and> alive (reader_turn (reading_redirector [Inl (OtherException ''TypeError'')])) = Some True
   \<and> trace (reader_turn (reading_redirector [Inl (OtherException ''TypeError'')]))
       = trace (reading_redirector [Inl (OtherException ''TypeError'')])"
  by (simp add: shortcircuit_def start_threads_def Let_def emit_def writer_body_def
      recv_def new_redirector_def demo_socket_def demo_serial_def failing_manager_def
      identity_manager_def writer_except_def reading_redirector_def reader_turn_def
      serial_read_def reader_except_def)

text \<open>
  C4, amended. An exception of the class \<^verbatim>\<open>socket.error\<close> (\<^verbatim>\<open>OSError\<close> and its
  subclasses, which include \<^verbatim>\<open>BlockingIOError\<close> and \<^verbatim>\<open>SerialException\<close>) is handled in
  the loop where it is raised.

  \<^item> In the reader, whether the serial read or the send to the socket raises it:
    the error is logged, the loop ends, the flag is cleared and the thread finishes.
  \<^item> In the writer, whether \<^verbatim>\<open>recv\<close>, the protocol filter or the serial write
    raises it: \<^verbatim>\<open>BlockingIOError\<close> is ignored and the loop goes on; any other one is
    logged and ends the loop, and the writer then returns, through \<^verbatim>\<open>stop()\<close>, with
    the flag false.
  \<^item> No exception of that class leaves \<^verbatim>\<open>shortcircuit()\<close> or kills the reader
    thread, and the flag is false when \<^verbatim>\<open>shortcircuit()\<close> returns.
  \<^item> An exception of any other class, raised at the same calls, is not handled: it
    ends the reader thread with no line logged and the flag still true, and it
    leaves the writer and \<^verbatim>\<open>shortcircuit()\<close> at once.
\<close>

theorem C4_socket_errors_handled:
  "(thread_read r = Running \<and> alive r = Some True
      \<and> (read_outcomes (serial r) = Inl e # rest
          \<or> (\<exists>data rest txs. read_outcomes (serial r) = Inr data # rest \<and> data \<noteq> []
                \<and> tx_outcomes (socket r) = Some e # txs)) \<longrightarrow>
      thread_read (reader_turn r) = (if is_socket_error e then Finished else Crashed e)
      \<and> alive (reader_turn r) = Some (\<not> is_socket_error e)
      \<and> trace (reader_turn r) =
          (if is_socket_error e
           then trace r @ [Log ERROR (str_exn e), Set_alive False,
                           Log DEBUG ''Reader thread terminated'']
           else trace r))
   \<and> (rx (socket r) = Rx_raise e # rxs
        \<or> (\<exists>d rest cfg. rx (socket r) = Data d # rest \<and> d \<noteq> []
              \<and> pm_filter (rfc2217 r) (take 1024 d) (settings (serial r)) = (Inl e, cfg))
        \<or> (\<exists>d rest payload cfg ws. rx (socket r) = Data d # rest \<and> d \<noteq> []
              \<and> pm_filter (rfc2217 r) (take 1024 d) (settings (serial r)) = (Inr payload, cfg)
              \<and> write_outcomes (serial r) = Some e # ws) \<longrightarrow>
        fst (writer_body r) =
          (if e = BlockingIOError then Continue
           else if is_socket_error e then Break else Uncaught e)
        \<and> trace (snd (writer_body r)) =
          (if is_socket_error e \<and> e \<noteq> BlockingIOError
           then trace r @ [Log ERROR (str_exn e)] else trace r))
   \<and> (alive r = Some True \<and> fst (writer_body r) = Continue \<longrightarrow>
        writer (T_writer # sched) r = writer sched (snd (writer_body r)))
   \<and> (alive r = Some True \<and> thread_read r \<noteq> Unstarted \<and> thread_poll r \<noteq> Unstarted
        \<and> fst (writer_body r) = Break \<longrightarrow>
        fst (writer (T_writer # sched) r) = Return ()
        \<and> alive (snd (writer (T_writer # sched) r)) = Some False)
   \<and> (alive r = Some True \<and> fst (writer_body r) = Uncaught e \<longrightarrow>
        writer (T_writer # sched) r = (Raised e, snd (writer_body r)))
   \<and> (rx (socket r) = Rx_raise e # rxs \<and> \<not> is_socket_error e \<longrightarrow>
        fst (shortcircuit (T_writer # sched) r) = Raised e)
   \<and> (fst (shortcircuit sched r) = Raised e \<longrightarrow> \<not> is_socket_error e)
   \<and> (fst (writer_body r) = Uncaught e \<longrightarrow> \<not> is_socket_error e)
   \<and> (fst (shortcircuit sched r) = Return u \<longrightarrow>
        alive (snd (shortcircuit sched r)) = Some False)
   \<and> (thread_read r = Running \<and> alive r = Some True
        \<and> thread_read (reader_turn r) = Crashed e \<longrightarrow> \<not> is_socket_error e)
   \<and> is_socket_error (SerialException m)
   \<and> is_socket_error BlockingIOError
   \<and> \<not> is_socket_error KeyboardInterrupt"
proof (intro conjI impI)
  assume a: "thread_read r = Running \<and> alive r = Some True
      \<and> (read_outcomes (serial r) = Inl e # rest
          \<or> (\<exists>data rest txs. read_outcomes (serial r) = Inr data # rest \<and> data \<noteq> []
                \<and> tx_outcomes (socket r) = Some e # txs))"
  then have h: "thread_read (reader_turn r) = (if is_socket_error e then Finished else Crashed e)
     \<and> alive (reader_turn r) = Some (\<not> is_socket_error e)
     \<and> trace (reader_turn r) =
         (if is_socket_error e
          then trace r @ [Log ERROR (str_exn e), Set_alive False,
                          Log DEBUG ''Reader thread terminated'']
          else trace r)"
    by (intro reader_turn_failure [of r e rest]) simp_all
  from h show "thread_read (reader_turn r) = (if is_socket_error e then Finished else Crashed e)"
    by simp
  from h show "alive (reader_turn r) = Some (\<not> is_socket_error e)" by simp
  from h show "trace (reader_turn r) =
          (if is_socket_error e
           then trace r @ [Log ERROR (str_exn e), Set_alive False,
                           Log DEBUG ''Reader thread terminated'']
           else trace r)" by simp
next
  assume a: "rx (socket r) = Rx_raise e # rxs
        \<or> (\<exists>d rest cfg. rx (socket r) = Data d # rest \<and> d \<noteq> []
              \<and> pm_filter (rfc2217 r) (take 1024 d) (settings (serial r)) = (Inl e, cfg))
        \<or> (\<exists>d rest payload cfg ws. rx (socket r) = Data d # rest \<and> d \<noteq> []
              \<and> pm_filter (rfc2217 r) (take 1024 d) (settings (serial r)) = (Inr payload, cfg)
              \<and> write_outcomes (serial r) = Some e # ws)"
  note h = writer_body_failure [OF a]
  from h show "fst (writer_body r) =
          (if e = BlockingIOError then Continue
           else if is_socket_error e then Break else Uncaught e)" by simp
  from h show "trace (snd (writer_body r)) =
          (if is_socket_error e \<and> e \<noteq> BlockingIOError
           then trace r @ [Log ERROR (str_exn e)] else trace r)" by simp
next
  assume "alive r = Some True \<and> fst (writer_body r) = Continue"
  then show "writer (T_writer # sched) r = writer sched (snd (writer_body r))"
    by (intro writer_turn_Continue) simp_all
next
  assume a: "alive r = Some True \<and> thread_read r \<noteq> Unstarted \<and> thread_poll r \<noteq> Unstarted
        \<and> fst (writer_body r) = Break"
  then show "fst (writer (T_writer # sched) r) = Return ()"
    by (intro writer_turn_Break_joined) simp_all
  from a show "alive (snd (writer (T_writer # sched) r)) = Some False"
    by (intro writer_turn_Break_joined) simp_all
next
  assume "alive r = Some True \<and> fst (writer_body r) = Uncaught e"
  then show "writer (T_writer # sched) r = (Raised e, snd (writer_body r))"
    by (intro writer_turn_Uncaught) simp_all
next
  assume a: "rx (socket r) = Rx_raise e # rxs \<and> \<not> is_socket_error e"
  let ?r = "start_threads r"
  have "rx (socket ?r) = Rx_raise e # rxs" using a by simp
  then have "fst (writer_body ?r) =
           (if e = BlockingIOError then Continue
            else if is_socket_error e then Break else Uncaught e)"
    using writer_body_failure [of ?r e rxs] by blast
  moreover have "e \<noteq> BlockingIOError" using a by auto
  ultimately have "fst (writer_body ?r) = Uncaught e" using a by simp
  then have "writer (T_writer # sched) ?r = (Raised e, snd (writer_body ?r))"
    by (intro writer_turn_Uncaught) simp_all
  then show "fst (shortcircuit (T_writer # sched) r) = Raised e"
    by (simp add: shortcircuit_def)
next
  assume "fst (shortcircuit sched r) = Raised e"
  then show "\<not> is_socket_error e"
    unfolding shortcircuit_def by (rule writer_raises)
next
  assume "fst (writer_body r) = Uncaught e"
  then show "\<not> is_socket_error e" by (rule writer_body_Uncaught)
next
  assume "fst (shortcircuit sched r) = Return u"
  then show "alive (snd (shortcircuit sched r)) = Some False"
    unfolding shortcircuit_def by (rule writer_returns_stopped)
next
  assume "thread_read r = Running \<and> alive r = Some True
        \<and> thread_read (reader_turn r) = Crashed e"
  then show "\<not> is_socket_error e" using reader_turn_crash by blast
next
  show "is_socket_error (SerialException m)" by simp
  show "is_socket_error BlockingIOError" by simp
  show "\<not> is_socket_error KeyboardInterrupt" by simp
qed

text \<open>
  The client has gone when the reader sends to it: \<^verbatim>\<open>sendall\<close> raises an
  \<^verbatim>\<open>OSError\<close>, the reader logs it, clears the flag and finishes.
\<close>

theorem C4_socket_errors_handled_witness:
  "thread_read (reader_turn
      ((reading_redirector [Inr [65]])
         \<lparr>socket := (demo_socket [])\<lparr>tx_outcomes := [Some (OSError ''Broken pipe'')]\<rparr>\<rparr>))
     = Finished
   \<and> alive (reader_turn
      ((reading_redirector [Inr [65]])
         \<lparr>socket := (demo_socket [])\<lparr>tx_outcomes := [Some (OSError ''Broken pipe'')]\<rparr>\<rparr>))
     = Some False
   \<and> trace (reader_turn
      ((reading_redirector [Inr [65]])
         \<lparr>socket := (demo_socket [])\<lparr>tx_outcomes := [Some (OSError ''Broken pipe'')]\<rparr>\<rparr>))
     = [Set_alive True, Thread_start Thread_read, Log DEBUG ''Reader thread started'',
        Thread_start Thread_poll, Log DEBUG ''Status line poll thread started'',
        Log ERROR ''Broken pipe'', Set_alive False,
        Log DEBUG ''Reader thread terminated'']"
  using C4_socket_errors_handled
    [where r = "(reading_redirector [Inr [65]])
         \<lparr>socket := (demo_socket [])\<lparr>tx_outcomes := [Some (OSError ''Broken pipe'')]\<rparr>\<rparr>"
       and e = "OSError ''Broken pipe''"]
  by (simp add: reading_redirector_def start_threads_def Let_def emit_def new_redirector_def
      demo_serial_def demo_socket_def identity_manager_def)

subsection \<open>C5: the writer loop\<close>

text \<open>
  C5, as stated, fails in two ways.

  \<^item> \<^verbatim>\<open>self.stop()\<close> is the statement after the loop, not a \<^verbatim>\<open>finally\<close> clause.
    When the loop is left by an exception that its handlers do not catch (here the
    interrupt of the user, raised in \<^verbatim>\<open>recv\<close> on the main thread), the writer does
    not call \<^verbatim>\<open>stop()\<close>: the flag is still true, the reader is still running, and
    \<^verbatim>\<open>stop\<close> has logged nothing.
  \<^item> \<^verbatim>\<open>stop()\<close> joins only when it finds the flag true. When the reader has ended
    first (here on a serial error) it has cleared the flag: the writer leaves its
    loop and calls \<^verbatim>\<open>stop()\<close>, which joins nothing, and so does the \<^verbatim>\<open>stop()\<close>
    that the main program calls afterwards; the poller is still running and nobody
    has joined it.
\<close>

theorem C5_stop_skipped_or_joins_nothing:
  "fst (shortcircuit [T_writer] (demo_redirector [Rx_raise KeyboardInterrupt]))
     = Raised KeyboardInterrupt
   \<and> alive (snd (shortcircuit [T_writer] (demo_redirector [Rx_raise KeyboardInterrupt])))
     = Some True
   \<and> thread_read (snd (shortcircuit [T_writer] (demo_redirector [Rx_raise KeyboardInterrupt])))
     = Running
   \<and> Log DEBUG ''Stopping''
       \<notin> set (trace (snd (shortcircuit [T_writer]
                             (demo_redirector [Rx_raise KeyboardInterrupt]))))
   \<and> writer [T_reader, T_writer]
        (reading_redirector [Inl (SerialException ''device disconnected'')])
     = (Return (),
        (reading_redirector [])
          \<lparr>alive := Some False, thread_read := Finished, thread_poll := Running,
           trace := [Set_alive True, Thread_start Thread_read,
                     Log DEBUG ''Reader thread started'', Thread_start Thread_poll,
                     Log DEBUG ''Status line poll thread started'',
                     Log ERROR ''device disconnected'', Set_alive False,
                     Log DEBUG ''Reader thread terminated'',
                     Log DEBUG ''Writer thread terminated'', Log DEBUG ''Stopping'']\<rparr>)
   \<and> thread_poll
        (snd (stop (snd (writer [T_reader, T_writer]
           (reading_redirector [Inl (SerialException ''device disconnected'')])))))
     = Running"
  by (simp add: shortcircuit_def start_threads_def Let_def emit_def writer_body_def
      recv_def new_redirector_def demo_socket_def demo_serial_def demo_redirector_def
      identity_manager_def writer_except_def reading_redirector_def reader_turn_def
      serial_read_def reader_except_def reader_exit_def writer_exit_def stop_def)

text \<open>
  C5, amended. The writer loops while the flag is true; each iteration receives
  at most 1024 bytes, passes them through the filter and writes the result to the
  port.

  \<^item> An empty receive ends the loop. \<^verbatim>\<open>BlockingIOError\<close>, from \<^verbatim>\<open>recv\<close>, the filter
    or the serial write, is skipped and the loop goes on. Any other exception of the
    class \<^verbatim>\<open>socket.error\<close> from one of these calls is logged and ends the loop.
  \<^item> When the loop has ended in one of these ways, or because the flag is false,
    the writer logs its end and calls \<^verbatim>\<open>stop()\<close>; the writer returns in no other
    way.
  \<^item> That \<^verbatim>\<open>stop()\<close> joins the reader and the poller when the loop was left with
    the flag true. When the flag is false already, because the reader has cleared
    it, \<^verbatim>\<open>stop()\<close> joins nothing and changes nothing but the log.
  \<^item> An exception of another class leaves the writer at once: \<^verbatim>\<open>stop()\<close> is not
    called and nothing is joined.
\<close>

theorem C5_writer:
  "(alive r = Some False \<longrightarrow>
      writer sched r =
        (Return (), r\<lparr>trace := trace r @ [Log DEBUG ''Writer thread terminated'',
                                           Log DEBUG ''Stopping'']\<rparr>))
   \<and> (rx (socket r) = [] \<longrightarrow> writer_body r = (Break, r))
   \<and> (rx (socket r) = Rx_raise BlockingIOError # rest \<longrightarrow>
        writer_body r = (Continue, r\<lparr>socket := (socket r)\<lparr>rx := rest\<rparr>\<rparr>))
   \<and> (rx (socket r) = Rx_raise e # rest \<and> is_socket_error e \<and> e \<noteq> BlockingIOError \<longrightarrow>
        writer_body r =
          (Break, emit (Log ERROR (str_exn e)) (r\<lparr>socket := (socket r)\<lparr>rx := rest\<rparr>\<rparr>)))
   \<and> (rx (socket r) = Data d # rest \<longrightarrow>
        rx (socket (snd (writer_body r))) =
          (if drop 1024 d = [] then rest else Data (drop 1024 d) # rest))
   \<and> (rx (socket r) = Data d # rest \<and> d \<noteq> []
        \<and> pm_filter (rfc2217 r) (take 1024 d) (settings (serial r)) = (Inr payload, cfg)
        \<and> write_outcomes (serial r) = [] \<longrightarrow>
        fst (writer_body r) = Continue
        \<and> written (serial (snd (writer_body r))) = written (serial r) @ payload)
   \<and> (rx (socket r) = Data d # rest \<and> d \<noteq> []
        \<and> pm_filter (rfc2217 r) (take 1024 d) (settings (serial r)) = (Inr payload, cfg)
        \<and> write_outcomes (serial r) = Some e # ws
        \<and> is_socket_error e \<and> e \<noteq> BlockingIOError \<longrightarrow>
        fst (writer_body r) = Break
        \<and> trace (snd (writer_body r)) = trace r @ [Log ERROR (str_exn e)])
   \<and> (rx (socket r) = Rx_raise e # rest
        \<or> (\<exists>d rest cfg. rx (socket r) = Data d # rest \<and> d \<noteq> []
              \<and> pm_filter (rfc2217 r) (take 1024 d) (settings (serial r)) = (Inl e, cfg))
        \<or> (\<exists>d rest payload cfg ws. rx (socket r) = Data d # rest \<and> d \<noteq> []
              \<and> pm_filter (rfc2217 r) (take 1024 d) (settings (serial r)) = (Inr payload, cfg)
              \<and> write_outcomes (serial r) = Some e # ws) \<longrightarrow>
        fst (writer_body r) =
          (if e = BlockingIOError then Continue
           else if is_socket_error e then Break else Uncaught e)
        \<and> trace (snd (writer_body r)) =
          (if is_socket_error e \<and> e \<noteq> BlockingIOError
           then trace r @ [Log ERROR (str_exn e)] else trace r))
   \<and> (alive r = Some True \<and> fst (writer_body r) = Break \<longrightarrow>
        writer (T_writer # sched) r =
          stop (emit (Log DEBUG ''Writer thread terminated'') (snd (writer_body r))))
   \<and> (alive r = Some True \<and> thread_read r \<noteq> Unstarted \<and> thread_poll r \<noteq> Unstarted
        \<and> fst (writer_body r) = Break \<longrightarrow>
        fst (writer (T_writer # sched) r) = Return ()
        \<and> alive (snd (writer (T_writer # sched) r)) = Some False
        \<and> thread_read (snd (writer (T_writer # sched) r)) \<noteq> Running
        \<and> thread_poll (snd (writer (T_writer # sched) r)) \<noteq> Running
        \<and> (\<exists>evs_read evs_poll.
              trace (snd (writer (T_writer # sched) r)) =
                trace (snd (writer_body r))
                  @ [Log DEBUG ''Writer thread terminated'', Log DEBUG ''Stopping'',
                     Set_alive False] @ evs_read
                  @ [Thread_join Thread_read] @ evs_poll @ [Thread_join Thread_poll]))
   \<and> (alive r = Some True \<and> fst (writer_body r) = Continue \<longrightarrow>
        writer (T_writer # sched) r = writer sched (snd (writer_body r)))
   \<and> (alive r = Some True \<and> fst (writer_body r) = Uncaught e \<longrightarrow>
        writer (T_writer # sched) r = (Raised e, snd (writer_body r)))
   \<and> (fst (writer sched r) = Return u \<longrightarrow>
        (\<exists>r'. writer sched r = stop (emit (Log DEBUG ''Writer thread terminated'') r')))
   \<and> (fst (writer sched r) = Raised e \<longrightarrow> \<not> is_socket_error e)"
proof (intro conjI impI)
  assume "alive r = Some False"
  then show "writer sched r =
        (Return (), r\<lparr>trace := trace r @ [Log DEBUG ''Writer thread terminated'',
                                           Log DEBUG ''Stopping'']\<rparr>)"
    by (rule writer_flag_False)
next
  assume "rx (socket r) = []"
  then show "writer_body r = (Break, r)" by (rule writer_body_empty)
next
  assume "rx (socket r) = Rx_raise BlockingIOError # rest"
  then show "writer_body r = (Continue, r\<lparr>socket := (socket r)\<lparr>rx := rest\<rparr>\<rparr>)"
    by (simp add: writer_body_raise writer_except_def)
next
  assume "rx (socket r) = Rx_raise e # rest \<and> is_socket_error e \<and> e \<noteq> BlockingIOError"
  then show "writer_body r =
          (Break, emit (Log ERROR (str_exn e)) (r\<lparr>socket := (socket r)\<lparr>rx := rest\<rparr>\<rparr>))"
    by (simp add: writer_body_raise writer_except_def)
next
  assume "rx (socket r) = Data d # rest"
  then show "rx (socket (snd (writer_body r))) =
          (if drop 1024 d = [] then rest else Data (drop 1024 d) # rest)"
    by (rule writer_body_rx)
next
  assume a: "rx (socket r) = Data d # rest \<and> d \<noteq> []
        \<and> pm_filter (rfc2217 r) (take 1024 d) (settings (serial r)) = (Inr payload, cfg)
        \<and> write_outcomes (serial r) = []"
  then have "fst (writer_body r) = Continue
     \<and> written (serial (snd (writer_body r))) = written (serial r) @ payload"
    by (intro writer_body_write_ok [of r d rest payload cfg]) simp_all
  then show "fst (writer_body r) = Continue"
    and "written (serial (snd (writer_body r))) = written (serial r) @ payload"
    by simp_all
next
  assume a: "rx (socket r) = Data d # rest \<and> d \<noteq> []
        \<and> pm_filter (rfc2217 r) (take 1024 d) (settings (serial r)) = (Inr payload, cfg)
        \<and> write_outcomes (serial r) = Some e # ws
        \<and> is_socket_error e \<and> e \<noteq> BlockingIOError"
  then have w: "writer_body r =
     writer_except e
       (r\<lparr>socket := (socket r)\<lparr>rx := (if drop 1024 d = [] then rest
                                        else Data (drop 1024 d) # rest)\<rparr>,
          serial := (serial r)\<lparr>settings := cfg, write_outcomes := ws\<rparr>\<rparr>)"
    by (intro writer_body_write_error [of r d rest payload cfg e ws]) simp_all
  from a show "fst (writer_body r) = Break"
    unfolding w by (simp add: writer_except_def)
  from a show "trace (snd (writer_body r)) = trace r @ [Log ERROR (str_exn e)]"
    unfolding w by (simp add: writer_except_def)
next
  assume a: "rx (socket r) = Rx_raise e # rest
        \<or> (\<exists>d rest cfg. rx (socket r) = Data d # rest \<and> d \<noteq> []
              \<and> pm_filter (rfc2217 r) (take 1024 d) (settings (serial r)) = (Inl e, cfg))
        \<or> (\<exists>d rest payload cfg ws. rx (socket r) = Data d # rest \<and> d \<noteq> []
              \<and> pm_filter (rfc2217 r) (take 1024 d) (settings (serial r)) = (Inr payload, cfg)
              \<and> write_outcomes (serial r) = Some e # ws)"
  have h: "fst (writer_body r) =
           (if e = BlockingIOError then Continue
            else if is_socket_error e then Break else Uncaught e)
         \<and> trace (snd (writer_body r)) =
           (if is_socket_error e \<and> e \<noteq> BlockingIOError
            then trace r @ [Log ERROR (str_exn e)] else trace r)"
    using a by (rule writer_body_failure)
  from h show "fst (writer_body r) =
          (if e = BlockingIOError then Continue
           else if is_socket_error e then Break else Uncaught e)" by simp
  from h show "trace (snd (writer_body r)) =
          (if is_socket_error e \<and> e \<noteq> BlockingIOError
           then trace r @ [Log ERROR (str_exn e)] else trace r)" by simp
next
  assume "alive r = Some True \<and> fst (writer_body r) = Break"
  then show "writer (T_writer # sched) r =
          stop (emit (Log DEBUG ''Writer thread terminated'') (snd (writer_body r)))"
    by (intro writer_turn_Break) simp_all
next
  assume a: "alive r = Some True \<and> thread_read r \<noteq> Unstarted \<and> thread_poll r \<noteq> Unstarted
        \<and> fst (writer_body r) = Break"
  from a show "fst (writer (T_writer # sched) r) = Return ()"
    by (intro writer_turn_Break_joined) simp_all
  from a show "alive (snd (writer (T_writer # sched) r)) = Some False"
    by (intro writer_turn_Break_joined) simp_all
  from a show "thread_read (snd (writer (T_writer # sched) r)) \<noteq> Running"
    by (intro writer_turn_Break_joined) simp_all
  from a show "thread_poll (snd (writer (T_writer # sched) r)) \<noteq> Running"
    by (intro writer_turn_Break_joined) simp_all
  from a show "\<exists>evs_read evs_poll.
              trace (snd (writer (T_writer # sched) r)) =
                trace (snd (writer_body r))
                  @ [Log DEBUG ''Writer thread terminated'', Log DEBUG ''Stopping'',
                     Set_alive False] @ evs_read
                  @ [Thread_join Thread_read] @ evs_poll @ [Thread_join Thread_poll]"
    by (intro writer_turn_Break_joined) simp_all
next
  assume "alive r = Some True \<and> fst (writer_body r) = Continue"
  then show "writer (T_writer # sched) r = writer sched (snd (writer_body r))"
    by (intro writer_turn_Continue) simp_all
next
  assume "alive r = Some True \<and> fst (writer_body r) = Uncaught e"
  then show "writer (T_writer # sched) r = (Raised e, snd (writer_body r))"
    by (intro writer_turn_Uncaught) simp_all
next
  assume "fst (writer sched r) = Return u"
  then show "\<exists>r'. writer sched r = stop (emit (Log DEBUG ''Writer thread terminated'') r')"
    by (rule writer_returns)
next
  assume "fst (writer sched r) = Raised e"
  then show "\<not> is_socket_error e" by (rule writer_raises)
qed

text \<open>
  The protocol filter raises an \<^verbatim>\<open>OSError\<close> under the writer while the flag is
  true: the error is logged, the loop ends, and the writer logs its end and calls
  \<^verbatim>\<open>stop()\<close>, which clears the flag and joins the reader and the poller.
\<close>

theorem C5_writer_witness:
  "fst (writer_body
     (start_threads
        (new_redirector (demo_serial\<lparr>is_open := True\<rparr>) (demo_socket [Data [1, 2, 3]])
           (identity_manager\<lparr>pm_filter := (\<lambda>d cfg. (Inl (OSError ''I/O error''), cfg))\<rparr>) [])))
     = Break
   \<and> trace (snd (writer_body
     (start_threads
        (new_redirector (demo_serial\<lparr>is_open := True\<rparr>) (demo_socket [Data [1, 2, 3]])
           (identity_manager\<lparr>pm_filter := (\<lambda>d cfg. (Inl (OSError ''I/O error''), cfg))\<rparr>) []))))
     = [Set_alive True, Thread_start Thread_read, Log DEBUG ''Reader thread started'',
        Thread_start Thread_poll, Log DEBUG ''Status line poll thread started'',
        Log ERROR ''I/O error'']
   \<and> fst (writer [T_writer]
     (start_threads
        (new_redirector (demo_serial\<lparr>is_open := True\<rparr>) (demo_socket [Data [1, 2, 3]])
           (identity_manager\<lparr>pm_filter := (\<lambda>d cfg. (Inl (OSError ''I/O error''), cfg))\<rparr>) [])))
     = Return ()
   \<and> alive (snd (writer [T_writer]
     (start_threads
        (new_redirector (demo_serial\<lparr>is_open := True\<rparr>) (demo_socket [Data [1, 2, 3]])
           (identity_manager\<lparr>pm_filter := (\<lambda>d cfg. (Inl (OSError ''I/O error''), cfg))\<rparr>) []))))
     = Some False
   \<and> thread_read (snd (writer [T_writer]
     (start_threads
        (new_redirector (demo_serial\<lparr>is_open := True\<rparr>) (demo_socket [Data [1, 2, 3]])
           (identity_manager\<lparr>pm_filter := (\<lambda>d cfg. (Inl (OSError ''I/O error''), cfg))\<rparr>) []))))
     \<noteq> Running
   \<and> thread_poll (snd (writer [T_writer]
     (start_threads
        (new_redirector (demo_serial\<lparr>is_open := True\<rparr>) (demo_socket [Data [1, 2, 3]])
           (identity_manager\<lparr>pm_filter := (\<lambda>d cfg. (Inl (OSError ''I/O error''), cfg))\<rparr>) []))))
     \<noteq> Running"
proof -
  let ?r = "start_threads
        (new_redirector (demo_serial\<lparr>is_open := True\<rparr>) (demo_socket [Data [1, 2, 3]])
           (identity_manager\<lparr>pm_filter := (\<lambda>d cfg. (Inl (OSError ''I/O error''), cfg))\<rparr>) [])"
  have p: "\<exists>d rest cfg. rx (socket ?r) = Data d # rest \<and> d \<noteq> []
      \<and> pm_filter (rfc2217 ?r) (take 1024 d) (settings (serial ?r))
          = (Inl (OSError ''I/O error''), cfg)"
    by (simp add: new_redirector_def demo_socket_def identity_manager_def)
  have q: "alive ?r = Some True \<and> thread_read ?r \<noteq> Unstarted \<and> thread_poll ?r \<noteq> Unstarted"
    by simp
  have t: "trace ?r = [Set_alive True, Thread_start Thread_read,
        Log DEBUG ''Reader thread started'',
        Thread_start Thread_poll, Log DEBUG ''Status line poll thread started'']"
    by (simp add: new_redirector_def)
  from C5_writer [where r = ?r and e = "OSError ''I/O error''" and sched = "[]"] p
  have b: "fst (writer_body ?r) = Break
        \<and> trace (snd (writer_body ?r)) = trace ?r @ [Log ERROR ''I/O error'']"
    by simp
  from C5_writer [where r = ?r and sched = "[]"] q b
  have j: "fst (writer [T_writer] ?r) = Return ()
        \<and> alive (snd (writer [T_writer] ?r)) = Some False
        \<and> thread_read (snd (writer [T_writer] ?r)) \<noteq> Running
        \<and> thread_poll (snd (writer [T_writer] ?r)) \<noteq> Running"
    by blast
  from b t j show ?thesis by simp
qed

subsection \<open>The wait for a client\<close>

lemma mark_simps [simp]:
  "ser (mark e st) = ser st" "srv (mark e st) = srv st" "client (mark e st) = client st"
  "addr (mark e st) = addr st" "new_port_manager (mark e st) = new_port_manager st"
  "scheds (mark e st) = scheds st" "history (mark e st) = history st @ [e]"
  by (simp_all add: mark_def)

lemma probe_event_simps [simp]:
  "ser (probe_event st) = ser st" "srv (probe_event st) = srv st"
  "client (probe_event st) = client st" "addr (probe_event st) = addr st"
  "new_port_manager (probe_event st) = new_port_manager st"
  "scheds (probe_event st) = scheds st"
  by (simp_all add: probe_event_def split: option.splits)

lemma probe_event_history:
  "history (probe_event st) = history st @ (if client st = None then [] else [Probe])"
  by (simp add: probe_event_def split: option.splits)

lemma is_socket_connected_None [simp]: "is_socket_connected None = (Inr False, None)"
  by (simp add: is_socket_connected_def)

lemma is_socket_connected_client:
  "is_socket_connected c = (x, c') \<Longrightarrow> (c' = None) = (c = None)"
  by (auto simp: is_socket_connected_def split: option.splits prod.splits sum.splits)

lemma is_socket_connected_True:
  "is_socket_connected c = (Inr True, c') \<Longrightarrow> c \<noteq> None"
  by (auto simp: is_socket_connected_def split: option.splits)

lemma is_socket_connected_False:
  "(fst (is_socket_connected (Some s)) = Inr False) = (fst (recv 1 s) = Inr [])"
  by (auto simp: is_socket_connected_def split: prod.splits sum.splits)

lemma is_socket_connected_error:
  "fst (recv 1 s) = Inl e \<Longrightarrow>
     fst (is_socket_connected (Some s)) = (if is_socket_error e then Inr True else Inl e)"
  by (auto simp: is_socket_connected_def split: prod.splits sum.splits)

lemma is_socket_connected_data:
  "rx s = Data (b # bs) # rest \<Longrightarrow>
     is_socket_connected (Some s) =
       (Inr True, Some (s\<lparr>rx := (if bs = [] then rest else Data bs # rest)\<rparr>))"
  by (simp add: is_socket_connected_def recv_def)

lemma await_client_raise:
  "is_socket_connected (client st) = (Inl e, c) \<Longrightarrow>
     await_client st = (Raised e, (probe_event st)\<lparr>client := c\<rparr>)"
  by (subst await_client.simps) simp

lemma await_client_True:
  "is_socket_connected (client st) = (Inr True, c) \<Longrightarrow>
     await_client st = (Return (), (probe_event st)\<lparr>client := c\<rparr>)"
  by (subst await_client.simps) simp

lemma await_client_empty:
  "is_socket_connected (client st) = (Inr False, c) \<Longrightarrow> srv st = [] \<Longrightarrow>
     await_client st = (Hangs, (probe_event st)\<lparr>client := c\<rparr>)"
  by (subst await_client.simps) simp

lemma await_client_timeout:
  "is_socket_connected (client st) = (Inr False, c) \<Longrightarrow> srv st = Inl SocketTimeout # rest \<Longrightarrow>
     await_client st =
       await_client
         (mark Sleep
           (mark (Log INFO ''Waiting for client connection...'')
             (mark Accept_timeout ((probe_event st)\<lparr>client := c, srv := rest\<rparr>))))"
  by (subst await_client.simps) simp

lemma await_client_error:
  "is_socket_connected (client st) = (Inr False, c) \<Longrightarrow> srv st = Inl e # rest \<Longrightarrow>
     e \<noteq> SocketTimeout \<Longrightarrow>
     await_client st = (Raised e, (probe_event st)\<lparr>client := c, srv := rest\<rparr>)"
  by (subst await_client.simps) simp

lemma await_client_accept:
  "is_socket_connected (client st) = (Inr False, c) \<Longrightarrow> srv st = Inr (s, a) # rest \<Longrightarrow>
     await_client st =
       await_client
         (mark (Log INFO (''Connection request from '' @ fst a @ '':'' @ str_nat (snd a)))
           (mark (Accepted (fst a) (snd a))
             ((probe_event st)\<lparr>client := Some s, addr := Some a, srv := rest\<rparr>)))"
  by (subst await_client.simps) simp

lemma await_client_cases [case_names raise connected empty timeout error accept]:
  assumes "\<And>st e c. is_socket_connected (client st) = (Inl e, c) \<Longrightarrow> P st"
    and "\<And>st c. is_socket_connected (client st) = (Inr True, c) \<Longrightarrow> P st"
    and "\<And>st c. is_socket_connected (client st) = (Inr False, c) \<Longrightarrow> srv st = [] \<Longrightarrow> P st"
    and "\<And>st c rest. is_socket_connected (client st) = (Inr False, c) \<Longrightarrow>
           srv st = Inl SocketTimeout # rest \<Longrightarrow>
           P (mark Sleep
               (mark (Log INFO ''Waiting for client connection...'')
                 (mark Accept_timeout ((probe_event st)\<lparr>client := c, srv := rest\<rparr>)))) \<Longrightarrow>
           P st"
    and "\<And>st c e rest. is_socket_connected (client st) = (Inr False, c) \<Longrightarrow>
           srv st = Inl e # rest \<Longrightarrow> e \<noteq> SocketTimeout \<Longrightarrow> P st"
    and "\<And>st c s a rest. is_socket_connected (client st) = (Inr False, c) \<Longrightarrow>
           srv st = Inr (s, a) # rest \<Longrightarrow>
           P (mark (Log INFO (''Connection request from '' @ fst a @ '':'' @ str_nat (snd a)))
               (mark (Accepted (fst a) (snd a))
                 ((probe_event st)\<lparr>client := Some s, addr := Some a, srv := rest\<rparr>))) \<Longrightarrow>
           P st"
  shows "P st"
proof (induction "srv st" arbitrary: st)
  case Nil
  obtain x c where p: "is_socket_connected (client st) = (x, c)"
    by (cases "is_socket_connected (client st)")
  show ?case
  proof (cases x)
    case (Inl e)
    with p show ?thesis by (auto intro: assms(1))
  next
    case (Inr b)
    with p Nil show ?thesis by (cases b) (auto intro: assms(2) assms(3))
  qed
next
  case (Cons y rest)
  obtain x c where p: "is_socket_connected (client st) = (x, c)"
    by (cases "is_socket_connected (client st)")
  note sr = Cons.hyps(2) [symmetric]
  show ?case
  proof (cases x)
    case (Inl e)
    with p show ?thesis by (auto intro: assms(1))
  next
    case (Inr b)
    show ?thesis
    proof (cases b)
      case True
      with p Inr show ?thesis by (auto intro: assms(2))
    next
      case False
      with p Inr have pf: "is_socket_connected (client st) = (Inr False, c)" by simp
      show ?thesis
      proof (cases y)
        case (Inl e)
        show ?thesis
        proof (cases "e = SocketTimeout")
          case True
          with Inl sr have s: "srv st = Inl SocketTimeout # rest" by simp
          show ?thesis
            by (rule assms(4) [OF pf s]) (rule Cons.hyps(1), simp)
        next
          case False
          with Inl sr pf show ?thesis by (auto intro: assms(5))
        qed
      next
        case (Inr sa)
        obtain s a where "sa = (s, a)" by (cases sa)
        with Inr sr have s: "srv st = Inr (s, a) # rest" by simp
        show ?thesis
          by (rule assms(6) [OF pf s]) (rule Cons.hyps(1), simp)
      qed
    qed
  qed
qed

lemma await_client_ser [simp]: "ser (snd (await_client st)) = ser st"
proof (induction st rule: await_client_cases)
  case (raise st e c)
  from await_client_raise [OF raise] show ?case by simp
next
  case (connected st c)
  from await_client_True [OF connected] show ?case by simp
next
  case (empty st c)
  from await_client_empty [OF empty] show ?case by simp
next
  case (timeout st c rest)
  from await_client_timeout [OF timeout(1,2)] timeout(3) show ?case by simp
next
  case (error st c e rest)
  from await_client_error [OF error] show ?case by simp
next
  case (accept st c s a rest)
  from await_client_accept [OF accept(1,2)] accept(3) show ?case by simp
qed

lemma await_client_accept_data:
  assumes "client st = None" "srv st = Inr (s, a) # pending" "rx s = Data (b # bs) # rest"
  shows "await_client st =
    (Return (),
     st\<lparr>client := Some (s\<lparr>rx := (if bs = [] then rest else Data bs # rest)\<rparr>),
        addr := Some a, srv := pending,
        history := history st
          @ [Accepted (fst a) (snd a),
             Log INFO (''Connection request from '' @ fst a @ '':'' @ str_nat (snd a)),
             Probe]\<rparr>)"
proof -
  let ?st' = "mark (Log INFO (''Connection request from '' @ fst a @ '':'' @ str_nat (snd a)))
           (mark (Accepted (fst a) (snd a))
             ((probe_event st)\<lparr>client := Some s, addr := Some a, srv := pending\<rparr>))"
  have "is_socket_connected (client st) = (Inr False, None)" using assms(1) by simp
  from await_client_accept [OF this assms(2)] have 1: "await_client st = await_client ?st'" .
  have "is_socket_connected (client ?st') =
       (Inr True, Some (s\<lparr>rx := (if bs = [] then rest else Data bs # rest)\<rparr>))"
    using assms(3) by (simp add: is_socket_connected_data)
  from await_client_True [OF this] have 2: "await_client ?st' =
     (Return (), (probe_event ?st')
        \<lparr>client := Some (s\<lparr>rx := (if bs = [] then rest else Data bs # rest)\<rparr>)\<rparr>)" .
  show ?thesis
    unfolding 1 2 using assms(1) by (simp add: probe_event_def mark_def)
qed

lemma await_client_returns:
  "fst (await_client st) = Return u \<longrightarrow>
     (\<exists>evs. history (snd (await_client st)) = history st @ evs @ [Probe]
       \<and> list_all client_wait_event evs
       \<and> (client st = None \<longrightarrow> (\<exists>h p. Accepted h p \<in> set evs)))"
proof (induction st rule: await_client_cases)
  case (raise st e c)
  from await_client_raise [OF raise] show ?case by simp
next
  case (connected st c)
  then have "client st \<noteq> None" by (auto dest: is_socket_connected_True)
  with await_client_True [OF connected] show ?case
    by (simp add: probe_event_history)
next
  case (empty st c)
  from await_client_empty [OF empty] show ?case by simp
next
  case (timeout st c rest)
  let ?st' = "mark Sleep
               (mark (Log INFO ''Waiting for client connection...'')
                 (mark Accept_timeout ((probe_event st)\<lparr>client := c, srv := rest\<rparr>)))"
  have eq: "await_client st = await_client ?st'"
    using timeout(1,2) by (rule await_client_timeout)
  have cn: "(c = None) = (client st = None)"
    using timeout(1) by (rule is_socket_connected_client)
  show ?case
  proof
    assume "fst (await_client st) = Return u"
    with eq timeout(3) obtain evs where
      h: "history (snd (await_client ?st')) = history ?st' @ evs @ [Probe]"
      and l: "list_all client_wait_event evs"
      and a: "client ?st' = None \<longrightarrow> (\<exists>h p. Accepted h p \<in> set evs)"
      by auto
    let ?evs = "(if client st = None then [] else [Probe])
                @ [Accept_timeout, Log INFO ''Waiting for client connection...'', Sleep] @ evs"
    have "history (snd (await_client st)) = history st @ ?evs @ [Probe]"
      using h eq by (simp add: probe_event_history)
    moreover have "list_all client_wait_event ?evs" using l by simp
    moreover have "client st = None \<longrightarrow> (\<exists>h p. Accepted h p \<in> set ?evs)"
      using a cn by auto
    ultimately show "\<exists>evs. history (snd (await_client st)) = history st @ evs @ [Probe]
       \<and> list_all client_wait_event evs
       \<and> (client st = None \<longrightarrow> (\<exists>h p. Accepted h p \<in> set evs))"
      by (intro exI [of _ ?evs] conjI)
  qed
next
  case (error st c e rest)
  from await_client_error [OF error] show ?case by simp
next
  case (accept st c s a rest)
  let ?st' = "mark (Log INFO (''Connection request from '' @ fst a @ '':'' @ str_nat (snd a)))
               (mark (Accepted (fst a) (snd a))
                 ((probe_event st)\<lparr>client := Some s, addr := Some a, srv := rest\<rparr>))"
  have eq: "await_client st = await_client ?st'"
    using accept(1,2) by (rule await_client_accept)
  show ?case
  proof
    assume "fst (await_client st) = Return u"
    with eq accept(3) obtain evs where
      h: "history (snd (await_client ?st')) = history ?st' @ evs @ [Probe]"
      and l: "list_all client_wait_event evs"
      by auto
    let ?evs = "(if client st = None then [] else [Probe])
                @ [Accepted (fst a) (snd a),
                   Log INFO (''Connection request from '' @ fst a @ '':'' @ str_nat (snd a))]
                @ evs"
    have "history (snd (await_client st)) = history st @ ?evs @ [Probe]"
      using h eq by (simp add: probe_event_history)
    moreover have "list_all client_wait_event ?evs" using l by simp
    moreover have "client st = None \<longrightarrow> (\<exists>h p. Accepted h p \<in> set ?evs)" by auto
    ultimately show "\<exists>evs. history (snd (await_client st)) = history st @ evs @ [Probe]
       \<and> list_all client_wait_event evs
       \<and> (client st = None \<longrightarrow> (\<exists>h p. Accepted h p \<in> set evs))"
      by (intro exI [of _ ?evs] conjI)
  qed
qed

lemma pass_body_first_byte:
  assumes "srv st = Inr (s, a) # pending" "rx s = Data (b # bs) # rest"
  shows "pass_body st =
         pass_body (st\<lparr>srv := Inr (s\<lparr>rx := Data (b' # bs) # rest\<rparr>, a) # pending\<rparr>)"
proof -
  let ?s' = "s\<lparr>rx := Data (b' # bs) # rest\<rparr>"
  let ?st' = "st\<lparr>srv := Inr (?s', a) # pending\<rparr>"
  have 1: "await_client (st\<lparr>client := None\<rparr>) =
    (Return (),
     (st\<lparr>client := None\<rparr>)
       \<lparr>client := Some (s\<lparr>rx := (if bs = [] then rest else Data bs # rest)\<rparr>),
        addr := Some a, srv := pending,
        history := history (st\<lparr>client := None\<rparr>)
          @ [Accepted (fst a) (snd a),
             Log INFO (''Connection request from '' @ fst a @ '':'' @ str_nat (snd a)),
             Probe]\<rparr>)"
    using assms by (intro await_client_accept_data) simp_all
  have 2: "await_client (?st'\<lparr>client := None\<rparr>) =
    (Return (),
     (?st'\<lparr>client := None\<rparr>)
       \<lparr>client := Some (?s'\<lparr>rx := (if bs = [] then rest else Data bs # rest)\<rparr>),
        addr := Some a, srv := pending,
        history := history (?st'\<lparr>client := None\<rparr>)
          @ [Accepted (fst a) (snd a),
             Log INFO (''Connection request from '' @ fst a @ '':'' @ str_nat (snd a)),
             Probe]\<rparr>)"
    by (intro await_client_accept_data) simp_all
  show ?thesis
    unfolding pass_body_def 1 2 by simp
qed

subsection \<open>C10: the connectivity probe\<close>

text \<open>
  C10: \<^verbatim>\<open>is_socket_connected\<close> answers \<open>False\<close> for \<^verbatim>\<open>None\<close>; for a socket it calls
  \<^verbatim>\<open>recv(1)\<close> and answers \<open>False\<close> exactly when that returns no data, \<open>True\<close> when it
  raises an exception of the class \<^verbatim>\<open>socket.error\<close> (an exception of another class
  propagates), and \<open>True\<close> when it returns a byte, which is then gone from the
  socket. The loop that waits for a client returns only right after a probe, and
  when it started without a client an \<^verbatim>\<open>accept\<close> came before; the whitelist check
  and the rest of the pass run on the state that the loop returns. For a client that
  has sent data, the loop accepts, logs, probes and returns with a socket that has
  lost its first byte, and the pass, hence the run of the main loop and what it
  writes to the serial port, does not depend on that byte.
\<close>

theorem C10_probe:
  "is_socket_connected None = (Inr False, None)
   \<and> ((fst (is_socket_connected (Some s)) = Inr False) = (fst (recv 1 s) = Inr []))
   \<and> (fst (recv 1 s) = Inl e \<and> is_socket_error e \<longrightarrow>
        fst (is_socket_connected (Some s)) = Inr True)
   \<and> (fst (recv 1 s) = Inl e \<and> \<not> is_socket_error e \<longrightarrow>
        fst (is_socket_connected (Some s)) = Inl e)
   \<and> (rx s = Data (b # bs) # rest \<longrightarrow>
        is_socket_connected (Some s) =
          (Inr True, Some (s\<lparr>rx := (if bs = [] then rest else Data bs # rest)\<rparr>)))
   \<and> (client st = None \<and> srv st = Inr (s, a) # pending \<and> rx s = Data (b # bs) # rest \<longrightarrow>
        await_client st =
          (Return (),
           st\<lparr>client := Some (s\<lparr>rx := (if bs = [] then rest else Data bs # rest)\<rparr>),
              addr := Some a, srv := pending,
              history := history st
                @ [Accepted (fst a) (snd a),
                   Log INFO (''Connection request from '' @ fst a @ '':'' @ str_nat (snd a)),
                   Probe]\<rparr>))
   \<and> (fst (await_client (st\<lparr>client := None\<rparr>)) = Return u \<longrightarrow>
        pass_body st = serve (snd (await_client (st\<lparr>client := None\<rparr>)))
        \<and> (\<exists>evs. history (snd (await_client (st\<lparr>client := None\<rparr>)))
                    = history st @ evs @ [Probe]
               \<and> list_all client_wait_event evs
               \<and> (\<exists>h p. Accepted h p \<in> set evs)))
   \<and> (fst (await_client (st\<lparr>client := None\<rparr>)) \<noteq> Return () \<longrightarrow>
        pass_body st = await_client (st\<lparr>client := None\<rparr>))
   \<and> (srv st = Inr (s, a) # pending \<and> rx s = Data (b # bs) # rest \<longrightarrow>
        pass_body st =
          pass_body (st\<lparr>srv := Inr (s\<lparr>rx := Data (b' # bs) # rest\<rparr>, a) # pending\<rparr>)
        \<and> main_loop (Suc n) st =
          main_loop (Suc n)
            (st\<lparr>srv := Inr (s\<lparr>rx := Data (b' # bs) # rest\<rparr>, a) # pending\<rparr>))"
proof (intro conjI impI)
  show "is_socket_connected None = (Inr False, None)" by simp
  show "(fst (is_socket_connected (Some s)) = Inr False) = (fst (recv 1 s) = Inr [])"
    by (rule is_socket_connected_False)
next
  assume "fst (recv 1 s) = Inl e \<and> is_socket_error e"
  then show "fst (is_socket_connected (Some s)) = Inr True"
    by (simp add: is_socket_connected_error)
next
  assume "fst (recv 1 s) = Inl e \<and> \<not> is_socket_error e"
  then show "fst (is_socket_connected (Some s)) = Inl e"
    by (simp add: is_socket_connected_error)
next
  assume "rx s = Data (b # bs) # rest"
  then show "is_socket_connected (Some s) =
          (Inr True, Some (s\<lparr>rx := (if bs = [] then rest else Data bs # rest)\<rparr>))"
    by (rule is_socket_connected_data)
next
  assume "client st = None \<and> srv st = Inr (s, a) # pending \<and> rx s = Data (b # bs) # rest"
  then show "await_client st =
          (Return (),
           st\<lparr>client := Some (s\<lparr>rx := (if bs = [] then rest else Data bs # rest)\<rparr>),
              addr := Some a, srv := pending,
              history := history st
                @ [Accepted (fst a) (snd a),
                   Log INFO (''Connection request from '' @ fst a @ '':'' @ str_nat (snd a)),
                   Probe]\<rparr>)"
    by (intro await_client_accept_data) simp_all
next
  assume r: "fst (await_client (st\<lparr>client := None\<rparr>)) = Return u"
  then show "pass_body st = serve (snd (await_client (st\<lparr>client := None\<rparr>)))"
    by (cases "await_client (st\<lparr>client := None\<rparr>)") (simp add: pass_body_def)
  from await_client_returns [of "st\<lparr>client := None\<rparr>" u] r
  show "\<exists>evs. history (snd (await_client (st\<lparr>client := None\<rparr>)))
                    = history st @ evs @ [Probe]
               \<and> list_all client_wait_event evs
               \<and> (\<exists>h p. Accepted h p \<in> set evs)"
    by simp
next
  assume "fst (await_client (st\<lparr>client := None\<rparr>)) \<noteq> Return ()"
  then show "pass_body st = await_client (st\<lparr>client := None\<rparr>)"
    by (cases "await_client (st\<lparr>client := None\<rparr>)")
       (auto simp: pass_body_def split: result.splits)
next
  assume a: "srv st = Inr (s, a) # pending \<and> rx s = Data (b # bs) # rest"
  then show p: "pass_body st =
          pass_body (st\<lparr>srv := Inr (s\<lparr>rx := Data (b' # bs) # rest\<rparr>, a) # pending\<rparr>)"
    by (intro pass_body_first_byte) simp_all
  then show "main_loop (Suc n) st =
          main_loop (Suc n)
            (st\<lparr>srv := Inr (s\<lparr>rx := Data (b' # bs) # rest\<rparr>, a) # pending\<rparr>)"
    by (simp add: main_pass_def)
qed

text \<open>
  A client on the loopback address sends the bytes 1, 2, 3 and closes. The wait for
  a client returns with the socket holding 2, 3 only, and these two bytes are what
  the pass writes to the serial port.
\<close>

theorem C10_probe_witness:
  "await_client
     (demo_supervisor [Inr (demo_socket [Data [1, 2, 3]], (''127.0.0.1'', 5000))]
        [[T_writer, T_writer]])
   = (Return (),
      (demo_supervisor [] [[T_writer, T_writer]])
        \<lparr>client := Some (demo_socket [Data [2, 3]]), addr := Some (''127.0.0.1'', 5000),
         history := [Accepted ''127.0.0.1'' 5000,
                     Log INFO ''Connection request from 127.0.0.1:5000'', Probe]\<rparr>)
   \<and> written (ser (snd (main_loop (Suc 0)
        (demo_supervisor [Inr (demo_socket [Data [1, 2, 3]], (''127.0.0.1'', 5000))]
           [[T_writer, T_writer]])))) = [2, 3]"
proof -
  let ?st = "demo_supervisor [Inr (demo_socket [Data [1, 2, 3]], (''127.0.0.1'', 5000))]
        [[T_writer, T_writer]]"
  have h: "client ?st = None
      \<and> srv ?st = Inr (demo_socket [Data [1, 2, 3]], (''127.0.0.1'', 5000)) # []
      \<and> rx (demo_socket [Data [1, 2, 3]]) = Data (1 # [2, 3]) # []"
    by (simp add: demo_supervisor_def demo_socket_def)
  from C10_probe [where st = ?st and s = "demo_socket [Data [1, 2, 3]]"
      and a = "(''127.0.0.1'', 5000)" and b = 1 and bs = "[2, 3]" and rest = "[]"
      and pending = "[]"] h
  have "await_client ?st =
          (Return (),
           ?st\<lparr>client := Some ((demo_socket [Data [1, 2, 3]])
                        \<lparr>rx := (if [2, 3] = ([] :: bytes) then [] else Data [2, 3] # [])\<rparr>),
              addr := Some (''127.0.0.1'', 5000), srv := [],
              history := history ?st
                @ [Accepted (fst (''127.0.0.1'', 5000 :: nat)) (snd (''127.0.0.1'', 5000 :: nat)),
                   Log INFO (''Connection request from '' @ fst (''127.0.0.1'', 5000 :: nat)
                             @ '':'' @ str_nat (snd (''127.0.0.1'', 5000 :: nat))),
                   Probe]\<rparr>)"
    by blast
  then have 1: "await_client ?st
   = (Return (),
      (demo_supervisor [] [[T_writer, T_writer]])
        \<lparr>client := Some (demo_socket [Data [2, 3]]), addr := Some (''127.0.0.1'', 5000),
         history := [Accepted ''127.0.0.1'' 5000,
                     Log INFO ''Connection request from 127.0.0.1:5000'', Probe]\<rparr>)"
    by (simp add: demo_supervisor_def demo_socket_def str_nat.simps char_of_def bit_0)
  have 2: "written (ser (snd (main_loop (Suc 0) ?st))) = [2, 3]"
    by (simp add: demo_supervisor_def demo_socket_def demo_serial_def identity_manager_def
      main_pass_def pass_body_def await_client.simps serve_def await_serial.simps
      session_def teardown_def shortcircuit_def start_threads_def Let_def emit_def
      new_redirector_def next_sched_def mark_def probe_event_def is_socket_connected_def
      recv_def IP_WHITELIST_def writer_body_def serial_write_def writer_exit_def stop_def
      join_read_def join_poll_def reader_turn_def reader_exit_def poller_turn_def
      str_nat.simps)
  from 1 2 show ?thesis by simp
qed

subsection \<open>The wait for the serial port and the session\<close>

lemma serial_close_simps [simp]:
  "srv (serial_close st) = srv st" "client (serial_close st) = client st"
  "addr (serial_close st) = addr st" "new_port_manager (serial_close st) = new_port_manager st"
  "scheds (serial_close st) = scheds st"
  "history (serial_close st) = history st @ [Serial_close]"
  "ser (serial_close st) = (ser st)\<lparr>is_open := False\<rparr>"
  by (simp_all add: serial_close_def)

lemma retry_open_simps [simp]:
  "srv (retry_open e st) = srv st" "client (retry_open e st) = client st"
  "addr (retry_open e st) = addr st" "new_port_manager (retry_open e st) = new_port_manager st"
  "scheds (retry_open e st) = scheds st"
  "is_open (ser (retry_open e st)) = (is_open (ser st) \<and> \<not> contains ''Port is already open'' (str_exn e))"
  "open_outcomes (ser (retry_open e st)) = open_outcomes (ser st)"
  "settings (ser (retry_open e st)) = settings (ser st)"
  by (simp_all add: retry_open_def)

lemma retry_open_history:
  "\<exists>evs. history (retry_open e st) = history st @ evs \<and> list_all serial_wait_event evs"
  by (simp add: retry_open_def)

lemma await_serial_open:
  "is_open (ser st) \<Longrightarrow> await_serial st = (Return (), st)"
  by (subst await_serial.simps) simp

lemma await_serial_exhausted:
  "\<not> is_open (ser st) \<Longrightarrow> open_outcomes (ser st) = [] \<Longrightarrow> await_serial st = (Hangs, st)"
  by (subst await_serial.simps) simp

lemma await_serial_success:
  "\<not> is_open (ser st) \<Longrightarrow> open_outcomes (ser st) = None # rest \<Longrightarrow>
     await_serial st =
       await_serial (mark (Serial_open True)
                      (st\<lparr>ser := (ser st)\<lparr>is_open := True, open_outcomes := rest\<rparr>\<rparr>))"
  by (subst await_serial.simps) simp

lemma await_serial_retry:
  "\<not> is_open (ser st) \<Longrightarrow> open_outcomes (ser st) = Some e # rest \<Longrightarrow>
     is_serial_exception e \<Longrightarrow>
     await_serial st =
       await_serial
         (retry_open e
            (mark (Serial_open False) (st\<lparr>ser := (ser st)\<lparr>open_outcomes := rest\<rparr>\<rparr>)))"
  by (subst await_serial.simps) (simp add: Let_def retry_open_def)

lemma await_serial_raise:
  "\<not> is_open (ser st) \<Longrightarrow> open_outcomes (ser st) = Some e # rest \<Longrightarrow>
     \<not> is_serial_exception e \<Longrightarrow>
     await_serial st =
       (Raised e, mark (Serial_open False) (st\<lparr>ser := (ser st)\<lparr>open_outcomes := rest\<rparr>\<rparr>))"
  by (subst await_serial.simps) (simp add: Let_def)

lemma await_serial_cases [case_names is_open exhausted success retry raise]:
  assumes "\<And>st. is_open (ser st) \<Longrightarrow> P st"
    and "\<And>st. \<not> is_open (ser st) \<Longrightarrow> open_outcomes (ser st) = [] \<Longrightarrow> P st"
    and "\<And>st rest. \<not> is_open (ser st) \<Longrightarrow> open_outcomes (ser st) = None # rest \<Longrightarrow>
           P (mark (Serial_open True)
                (st\<lparr>ser := (ser st)\<lparr>is_open := True, open_outcomes := rest\<rparr>\<rparr>)) \<Longrightarrow> P st"
    and "\<And>st e rest. \<not> is_open (ser st) \<Longrightarrow> open_outcomes (ser st) = Some e # rest \<Longrightarrow>
           is_serial_exception e \<Longrightarrow>
           P (retry_open e
               (mark (Serial_open False) (st\<lparr>ser := (ser st)\<lparr>open_outcomes := rest\<rparr>\<rparr>))) \<Longrightarrow>
           P st"
    and "\<And>st e rest. \<not> is_open (ser st) \<Longrightarrow> open_outcomes (ser st) = Some e # rest \<Longrightarrow>
           \<not> is_serial_exception e \<Longrightarrow> P st"
  shows "P st"
proof (induction "open_outcomes (ser st)" arbitrary: st)
  case Nil
  then show ?case by (cases "is_open (ser st)") (auto intro: assms(1) assms(2))
next
  case (Cons y rest)
  note oo = Cons.hyps(2) [symmetric]
  show ?case
  proof (cases "is_open (ser st)")
    case True
    then show ?thesis by (rule assms(1))
  next
    case False
    show ?thesis
    proof (cases y)
      case None
      with oo have o: "open_outcomes (ser st) = None # rest" by simp
      show ?thesis by (rule assms(3) [OF False o]) (rule Cons.hyps(1), simp)
    next
      case (Some e)
      with oo have o: "open_outcomes (ser st) = Some e # rest" by simp
      show ?thesis
      proof (cases "is_serial_exception e")
        case True
        show ?thesis by (rule assms(4) [OF False o True]) (rule Cons.hyps(1), simp)
      next
        case ne: False
        show ?thesis by (rule assms(5) [OF False o ne])
      qed
    qed
  qed
qed

lemma await_serial_fields [simp]:
  "srv (snd (await_serial st)) = srv st \<and> client (snd (await_serial st)) = client st
   \<and> addr (snd (await_serial st)) = addr st
   \<and> new_port_manager (snd (await_serial st)) = new_port_manager st
   \<and> scheds (snd (await_serial st)) = scheds st"
proof (induction st rule: await_serial_cases)
  case (is_open st)
  from await_serial_open [OF is_open] show ?case by simp
next
  case (exhausted st)
  from await_serial_exhausted [OF exhausted] show ?case by simp
next
  case (success st rest)
  from await_serial_success [OF success(1,2)] success(3) show ?case by simp
next
  case (retry st e rest)
  from await_serial_retry [OF retry(1,2,3)] retry(4) show ?case by simp
next
  case (raise st e rest)
  from await_serial_raise [OF raise] show ?case by simp
qed

lemma await_serial_is_open:
  "is_open (ser (snd (await_serial st))) = (fst (await_serial st) = Return ())"
proof (induction st rule: await_serial_cases)
  case (is_open st)
  with await_serial_open [OF is_open] show ?case by simp
next
  case (exhausted st)
  with await_serial_exhausted [OF exhausted] show ?case by simp
next
  case (success st rest)
  from await_serial_success [OF success(1,2)] success(3) show ?case by simp
next
  case (retry st e rest)
  from await_serial_retry [OF retry(1,2,3)] retry(4) show ?case by simp
next
  case (raise st e rest)
  with await_serial_raise [OF raise] show ?case by simp
qed

lemma await_serial_history:
  "\<exists>evs. history (snd (await_serial st)) = history st @ evs \<and> list_all serial_wait_event evs"
proof (induction st rule: await_serial_cases)
  case (is_open st)
  from await_serial_open [OF is_open] show ?case by simp
next
  case (exhausted st)
  from await_serial_exhausted [OF exhausted] show ?case by simp
next
  case (success st rest)
  from await_serial_success [OF success(1,2)] success(3) show ?case by auto
next
  case (retry st e rest)
  let ?st1 = "mark (Serial_open False) (st\<lparr>ser := (ser st)\<lparr>open_outcomes := rest\<rparr>\<rparr>)"
  obtain evs1 where 1: "history (retry_open e ?st1) = history ?st1 @ evs1"
      "list_all serial_wait_event evs1"
    using retry_open_history [of e ?st1] by blast
  from retry(4) obtain evs2 where
    2: "history (snd (await_serial (retry_open e ?st1))) = history (retry_open e ?st1) @ evs2"
       "list_all serial_wait_event evs2" by blast
  have "history (snd (await_serial st)) = history st @ (Serial_open False # evs1 @ evs2)"
    using await_serial_retry [OF retry(1,2,3)] 1 2 by simp
  moreover have "list_all serial_wait_event (Serial_open False # evs1 @ evs2)"
    using 1 2 by simp
  ultimately show ?case by blast
next
  case (raise st e rest)
  from await_serial_raise [OF raise] show ?case by simp
qed

lemma session_event_redirector: "session_event e \<Longrightarrow> redirector_event e"
  by (cases e) simp_all

lemma session_steps_redirector:
  assumes "session_steps r r'"
  shows "\<exists>evs. trace r' = trace r @ evs \<and> list_all redirector_event evs"
proof -
  from assms obtain evs where "trace r' = trace r @ evs" "list_all session_event evs"
    by (auto simp: session_steps_def)
  moreover from this have "list_all redirector_event evs"
    by (auto simp: list_all_iff intro: session_event_redirector)
  ultimately show ?thesis by blast
qed

lemma stop_returns:
  assumes "started r"
  shows "fst (stop r) = Return ()" and "alive (snd (stop r)) = Some False"
    and "started (snd (stop r))"
proof -
  from assms obtain b where b: "alive r = Some b" by (auto simp: started_def)
  have u: "thread_read r \<noteq> Unstarted" "thread_poll r \<noteq> Unstarted"
    using assms by (auto simp: started_def)
  have "fst (stop r) = Return () \<and> alive (snd (stop r)) = Some False
        \<and> started (snd (stop r))"
  proof (cases b)
    case True
    with b u have "stop r =
      (Return (),
       emit (Thread_join Thread_poll)
         (poller_turn (emit (Thread_join Thread_read) (reader_turn (stopping r)))))"
      by (simp add: stop_True)
    moreover have "alive (reader_turn (stopping r)) = Some False"
      by (simp add: reader_turn_stopped_alive)
    ultimately show ?thesis using u by (simp add: started_def)
  next
    case False
    with b u show ?thesis by (simp add: stop_False started_def)
  qed
  then show "fst (stop r) = Return ()" and "alive (snd (stop r)) = Some False"
    and "started (snd (stop r))" by simp_all
qed

lemma started_turns:
  assumes "started r"
  shows "started (reader_turn r)" and "started (poller_turn r)"
    and "started (snd (writer_body r))" and "started (emit e r)"
  using assms by (simp_all add: started_def reader_turn_alive_None)

lemma writer_started: "started r \<Longrightarrow> started (snd (writer sched r))"
proof (induction sched arbitrary: r)
  case Nil
  then obtain b where b: "alive r = Some b" by (auto simp: started_def)
  show ?case
  proof (cases b)
    case True
    with b Nil show ?thesis by simp
  next
    case False
    with b have "writer [] r = stop (emit (Log DEBUG ''Writer thread terminated'') r)"
      by (simp add: writer_exit_def)
    with Nil show ?thesis by (simp add: stop_returns started_turns)
  qed
next
  case (Cons t ts)
  then obtain b where b: "alive r = Some b" by (auto simp: started_def)
  show ?case
  proof (cases b)
    case False
    with b have "writer (t # ts) r = stop (emit (Log DEBUG ''Writer thread terminated'') r)"
      by (simp add: writer_exit_def)
    with Cons.prems show ?thesis by (simp add: stop_returns started_turns)
  next
    case True
    show ?thesis
    proof (cases t)
      case T_reader
      with b True Cons.IH [of "reader_turn r"] Cons.prems show ?thesis
        by (simp add: started_turns)
    next
      case T_poller
      with b True Cons.IH [of "poller_turn r"] Cons.prems show ?thesis
        by (simp add: started_turns)
    next
      case T_writer
      obtain x r' where wb: "writer_body r = (x, r')" by (cases "writer_body r")
      then have s: "started r'" using started_turns(3) [OF Cons.prems] by simp
      show ?thesis
      proof (cases x)
        case Continue
        with T_writer b True wb Cons.IH [OF s] show ?thesis by simp
      next
        case Break
        with T_writer b True wb
        have "writer (t # ts) r = stop (emit (Log DEBUG ''Writer thread terminated'') r')"
          by (simp add: writer_exit_def)
        with s show ?thesis by (simp add: stop_returns started_turns)
      next
        case (Uncaught e)
        with T_writer b True wb s show ?thesis by simp
      qed
    qed
  qed
qed

lemma start_threads_started: "started (start_threads r)"
  by (simp add: started_def)

lemma shortcircuit_started: "started (snd (shortcircuit sched r))"
  unfolding shortcircuit_def by (rule writer_started) (rule start_threads_started)


lemma teardown_started:
  assumes "started r"
  shows "teardown snapshot res r st =
    (res,
     st\<lparr>client := Some ((socket (snd (stop (emit (Log INFO ''Disconnected'') r))))
                         \<lparr>sock_closed := True\<rparr>),
        ser := (serial (snd (stop (emit (Log INFO ''Disconnected'') r))))
                 \<lparr>dtr := False, rts := False, settings := snapshot, is_open := False\<rparr>,
        history := trace (snd (stop (emit (Log INFO ''Disconnected'') r)))
                     @ teardown_events snapshot\<rparr>)"
proof -
  have "started (emit (Log INFO ''Disconnected'') r)"
    using assms by (rule started_turns)
  from stop_returns(1) [OF this]
  obtain r' where "stop (emit (Log INFO ''Disconnected'') r) = (Return (), r')"
    by (cases "stop (emit (Log INFO ''Disconnected'') r)") auto
  then show ?thesis by (simp add: teardown_def teardown_events_def)
qed

lemma teardown_history:
  assumes "started r"
  shows "\<exists>evs. history (snd (teardown snapshot res r st)) =
           trace r @ evs @ teardown_events snapshot
         \<and> list_all redirector_event evs"
proof -
  let ?q = "emit (Log INFO ''Disconnected'') r"
  from session_steps_redirector [OF stop_steps [of ?q]]
  obtain evs where "trace (snd (stop ?q)) = trace ?q @ evs" "list_all redirector_event evs"
    by blast
  then have "history (snd (teardown snapshot res r st)) =
           trace r @ (Log INFO ''Disconnected'' # evs) @ teardown_events snapshot
         \<and> list_all redirector_event (Log INFO ''Disconnected'' # evs)"
    by (simp add: teardown_started [OF assms])
  then show ?thesis by blast
qed

lemma session_cases:
  obtains (hangs) r' where
      "shortcircuit (next_sched st) (session_redirector c st) = (Hangs, r')"
      "session c st =
         (Hangs, st\<lparr>scheds := tl (scheds st), client := Some (socket r'), ser := serial r',
                     history := trace r'\<rparr>)"
    | (ends) res r' q where
      "shortcircuit (next_sched st) (session_redirector c st) = (res, r')" "res \<noteq> Hangs"
      "started r'"
      "stop (emit (Log INFO ''Disconnected'') r') = (Return (), q)"
      "session c st =
         (res, st\<lparr>scheds := tl (scheds st),
                  client := Some ((socket q)\<lparr>sock_closed := True\<rparr>),
                  ser := (serial q)\<lparr>dtr := False, rts := False,
                                    settings := settings (ser st), is_open := False\<rparr>,
                  history := trace q @ teardown_events (settings (ser st))\<rparr>)"
proof -
  let ?sc = "shortcircuit (next_sched st) (session_redirector c st)"
  obtain res r' where sc: "?sc = (res, r')" by (cases ?sc)
  have st': "started r'"
    using shortcircuit_started [of "next_sched st" "session_redirector c st"] sc by simp
  have sc': "shortcircuit (case scheds st of [] \<Rightarrow> [] | sched # rest \<Rightarrow> sched)
          \<lparr>serial = (ser st)\<lparr>dtr := True, rts := True\<rparr>, socket = c,
             rfc2217 = new_port_manager st, alive = None,
             thread_read = Unstarted, thread_poll = Unstarted,
             trace = history st @ [Log INFO (''Connected to '' @ port_name (ser st)),
                      Serial_get_settings, Serial_dtr True, Serial_rts True, New_redirector]\<rparr>
        = (res, r')"
    using sc by (simp add: next_sched_def session_redirector_def new_redirector_def)
  show ?thesis
  proof (cases "res = Hangs")
    case True
    with sc' have "session c st =
         (Hangs, st\<lparr>scheds := tl (scheds st), client := Some (socket r'), ser := serial r',
                     history := trace r'\<rparr>)"
      by (simp add: session_def Let_def mark_def next_sched_def new_redirector_def)
    with sc True show ?thesis by (auto intro: hangs)
  next
    case False
    have "started (emit (Log INFO ''Disconnected'') r')"
      using st' by (rule started_turns)
    from stop_returns(1) [OF this]
    obtain q where q: "stop (emit (Log INFO ''Disconnected'') r') = (Return (), q)"
      by (cases "stop (emit (Log INFO ''Disconnected'') r')") auto
    from sc' False q have "session c st =
         (res, st\<lparr>scheds := tl (scheds st),
                  client := Some ((socket q)\<lparr>sock_closed := True\<rparr>),
                  ser := (serial q)\<lparr>dtr := False, rts := False,
                                    settings := settings (ser st), is_open := False\<rparr>,
                  history := trace q @ teardown_events (settings (ser st))\<rparr>)"
      by (cases res)
         (simp_all add: session_def Let_def mark_def next_sched_def new_redirector_def
            teardown_def teardown_events_def)
    with sc False st' q show ?thesis by (auto intro: ends)
  qed
qed


lemma session_fields [simp]:
  "srv (snd (session c st)) = srv st" "addr (snd (session c st)) = addr st"
  "new_port_manager (snd (session c st)) = new_port_manager st"
  "scheds (snd (session c st)) = tl (scheds st)"
  by (cases rule: session_cases [of st c]; simp)+





subsection \<open>C2: the teardown of a session\<close>



end
